theory Spec2Isabelle
  imports Complex_Main
begin

section \<open>Project Cloner: the export worker of \<open>project_cloner.py\<close>\<close>

text \<open>
  The development embeds \<open>sanitize_filename\<close> and \<open>CloneThread.run\<close> with its helper
  \<open>_copy_associated_files\<close>. The host application (project, layers), the file system,
  the temporary-directory service and the archive writer are the environment of the
  worker: they are modelled as explicit records and as a state that the run threads
  through, with every call that can raise returning a sum.

  A Python string is a list of characters; a \<^typ>\<open>char\<close> of the model stands for a code
  point below 256. A path is an opaque name: a path denotes a regular file exactly when
  it is listed in \<open>files\<close>, and a directory exactly when it is listed in \<open>dirs\<close>.
\<close>

subsection \<open>Path functions of \<open>os.path\<close> (POSIX flavour)\<close>

fun startswith :: "string \<Rightarrow> string \<Rightarrow> bool" where
  "startswith s [] = True"
| "startswith [] (c # cs) = False"
| "startswith (x # xs) (c # cs) = (x = c \<and> startswith xs cs)"

definition basename :: "string \<Rightarrow> string" where
  \<comment> \<open>\<open>i = p.rfind('/') + 1; return p[i:]\<close>\<close>
  "basename p = rev (takeWhile (\<lambda>c. c \<noteq> CHR ''/'') (rev p))"

definition dirname :: "string \<Rightarrow> string" where
  \<comment> \<open>\<open>head = p[:i]; if head and head != '/' * len(head): head = head.rstrip('/')\<close>\<close>
  "dirname p =
     (let head = rev (dropWhile (\<lambda>c. c \<noteq> CHR ''/'') (rev p))
      in if head \<noteq> [] \<and> (\<exists>c \<in> set head. c \<noteq> CHR ''/'')
         then rev (dropWhile (\<lambda>c. c = CHR ''/'') (rev head))
         else head)"

definition splitext :: "string \<Rightarrow> string \<times> string" where
  \<comment> \<open>the extension starts at the last dot of the last path component, unless only dots
      precede that dot in the component\<close>
  "splitext p =
     (let fname = basename p;
          ext = rev (takeWhile (\<lambda>c. c \<noteq> CHR ''.'') (rev fname));
          stem = rev (tl (dropWhile (\<lambda>c. c \<noteq> CHR ''.'') (rev fname)))
      in if CHR ''.'' \<in> set fname \<and> (\<exists>c \<in> set stem. c \<noteq> CHR ''.'')
         then (take (length p - (length ext + 1)) p, CHR ''.'' # ext)
         else (p, []))"

definition join :: "string \<Rightarrow> string \<Rightarrow> string" where
  "join a b =
     (if startswith b ''/'' then b
      else if a = [] \<or> last a = CHR ''/'' then a @ b
      else a @ ''/'' @ b)"

subsection \<open>\<open>sanitize_filename\<close>\<close>

definition isalnum :: "char \<Rightarrow> bool" where
  \<comment> \<open>\<open>str.isalnum\<close> on the code points below 256\<close>
  "isalnum c =
     (let n = (of_char c :: nat)
      in (48 \<le> n \<and> n \<le> 57) \<or> (65 \<le> n \<and> n \<le> 90) \<or> (97 \<le> n \<and> n \<le> 122)
         \<or> n = 170 \<or> n = 178 \<or> n = 179 \<or> n = 181 \<or> n = 185 \<or> n = 186
         \<or> (188 \<le> n \<and> n \<le> 190) \<or> (192 \<le> n \<and> n \<le> 214)
         \<or> (216 \<le> n \<and> n \<le> 246) \<or> (248 \<le> n \<and> n \<le> 255))"

definition sanitize_filename :: "string \<Rightarrow> string" where
  "sanitize_filename name =
     concat (map (\<lambda>c. if isalnum c \<or> c \<in> set [CHR '' '', CHR ''_'', CHR ''-'']
                      then [c] else ''_'') name)"

definition allowed :: "char \<Rightarrow> bool" where
  \<comment> \<open>alphanumeric, space, underscore or hyphen\<close>
  "allowed c = (isalnum c \<or> c = CHR '' '' \<or> c = CHR ''_'' \<or> c = CHR ''-'')"

subsection \<open>The host application, the worker and the state of a run\<close>

datatype layer_kind = QgsVectorLayer | QgsRasterLayer | OtherLayer

text \<open>
  A layer as the run sees it. \<open>saveNamedStyle\<close> reports failure through its return
  value, which the run ignores, so \<open>style_ok\<close> only says whether the file gets written.
  \<open>QgsLayerDefinition.writeLayer\<close> either writes the file or raises, as the handler
  around the call takes it.
\<close>

record layer =
  kind :: layer_kind
  name :: string
  source :: string
  style_ok :: bool
  writeLayer_raises :: bool

text \<open>
  What the run reads from its surroundings: \<open>QgsProject.instance()\<close> (file name, the
  return value of \<open>write\<close>, the layers in enumeration order), whether
  \<open>QgsLayerDefinition\<close> has \<open>writeLayer\<close>, the version string, the clock, the directory and
  the random name that \<open>tempfile.mkdtemp\<close> picks, and whether \<open>mkdtemp\<close> and the opening
  of the archive raise.
\<close>

record host =
  fileName :: string
  write_ok :: bool
  mapLayers :: "layer list"
  has_writeLayer :: bool
  QGIS_VERSION :: string
  now_isoformat :: string
  gettempdir :: string
  mkdtemp_name :: string
  mkdtemp_raises :: bool
  zip_open_raises :: bool

record CloneThread =
  output_path :: string
  include_data :: bool

record metadata =
  created :: string
  qgis_version :: string
  layer_count :: nat
  include_data_flag :: bool

datatype exn =
    OSError string
  | FileNotFoundError string
  | SameFileError string
  | ZeroDivisionError

fun str_exn :: "exn \<Rightarrow> string" where
  "str_exn (OSError p) = ''[Errno 13] Permission denied: '' @ p"
| "str_exn (FileNotFoundError p) = ''[Errno 2] No such file or directory: '' @ p"
| "str_exn (SameFileError p) = p @ '' and '' @ p @ '' are the same file''"
| "str_exn ZeroDivisionError = ''division by zero''"

text \<open>The file-system effects of a run, recorded in the order they happen.\<close>

datatype file_op =
    Mkdtemp string
  | ProjectWrite string
  | Copy2 string string
  | SaveNamedStyle string
  | WriteLayer string
  | ZipOpen string
  | JsonDump string
  | Rmtree string

text \<open>
  The three signals of \<open>CloneThread\<close>, the message log and the file-system effects share
  one trace.
\<close>

datatype event =
    status_updated string
  | progress_updated int
  | finished_signal bool string
  | logMessage string
  | file_io file_op

text \<open>
  \<open>archive\<close> is what this run has written at \<open>output_path\<close> (\<open>None\<close>: nothing), as the
  list of entry names; \<open>metadata_json\<close> is the content of the manifest file; \<open>temp_dir\<close>
  is the attribute \<open>self.temp_dir\<close>.
\<close>

record state =
  files :: "string list"
  dirs :: "string list"
  archive :: "string list option"
  metadata_json :: "metadata option"
  temp_dir :: "string option"
  events :: "event list"

definition init_state :: "string list \<Rightarrow> string list \<Rightarrow> state" where
  "init_state fs ds =
     \<lparr>files = fs, dirs = ds, archive = None, metadata_json = None,
      temp_dir = None, events = []\<rparr>"

definition emit :: "event \<Rightarrow> state \<Rightarrow> state" where
  "emit e st = st\<lparr>events := events st @ [e]\<rparr>"

subsection \<open>File-system and archive operations\<close>

definition isfile :: "string \<Rightarrow> state \<Rightarrow> bool" where
  "isfile p st = (p \<in> set (files st))"

definition isdir :: "string \<Rightarrow> state \<Rightarrow> bool" where
  "isdir p st = (p \<in> set (dirs st))"

definition path_exists :: "string \<Rightarrow> state \<Rightarrow> bool" where
  "path_exists p st = (isfile p st \<or> isdir p st)"

definition add_file :: "string \<Rightarrow> state \<Rightarrow> state" where
  "add_file p st = (if p \<in> set (files st) then st else st\<lparr>files := files st @ [p]\<rparr>)"

definition listdir :: "string \<Rightarrow> state \<Rightarrow> exn + string list" where
  "listdir d st =
     (if isdir d st
      then Inr (map basename
             (filter (\<lambda>p. dirname p = d \<and> basename p \<noteq> []) (files st @ dirs st)))
      else Inl (FileNotFoundError d))"

definition copy2 :: "string \<Rightarrow> string \<Rightarrow> state \<Rightarrow> state \<times> (exn + unit)" where
  \<comment> \<open>a destination that is a directory receives the file under the source's base name\<close>
  "copy2 src dst st =
     (if \<not> isfile src st then (st, Inl (FileNotFoundError src))
      else let d = (if isdir dst st then join dst (basename src) else dst)
           in if d = src then (st, Inl (SameFileError src))
              else (emit (file_io (Copy2 src d)) (add_file d st), Inr ()))"

definition inside :: "string \<Rightarrow> string \<Rightarrow> bool" where
  "inside t p = startswith p (join t [])"

definition rmtree :: "string \<Rightarrow> state \<Rightarrow> state" where
  "rmtree t st =
     emit (file_io (Rmtree t))
       (st\<lparr>files := filter (\<lambda>p. p \<noteq> t \<and> \<not> inside t p) (files st),
           dirs := filter (\<lambda>p. p \<noteq> t \<and> \<not> inside t p) (dirs st)\<rparr>)"

definition zip_write :: "string \<Rightarrow> string \<Rightarrow> state \<Rightarrow> state \<times> (exn + unit)" where
  \<comment> \<open>\<open>zipf.write(path, arcname)\<close>\<close>
  "zip_write path arcname st =
     (if isfile path st
      then (st\<lparr>archive := map_option (\<lambda>es. es @ [arcname]) (archive st)\<rparr>, Inr ())
      else (st, Inl (FileNotFoundError path)))"

fun zip_write_all :: "string list \<Rightarrow> state \<Rightarrow> state \<times> (exn + unit)" where
  \<comment> \<open>\<open>for file_path in layer_files: zipf.write(file_path, os.path.basename(file_path))\<close>\<close>
  "zip_write_all [] st = (st, Inr ())"
| "zip_write_all (file_path # rest) st =
     (case zip_write file_path (basename file_path) st of
        (st', Inl e) \<Rightarrow> (st', Inl e)
      | (st', Inr _) \<Rightarrow> zip_write_all rest st')"

subsection \<open>\<open>CloneThread._copy_associated_files\<close>\<close>

fun copy_matching ::
  "string \<Rightarrow> string \<Rightarrow> string \<Rightarrow> string list \<Rightarrow> state \<Rightarrow> state \<times> (exn + unit)" where
  \<comment> \<open>the loop over the directory listing\<close>
  "copy_matching base_name base_dir dest_dir [] st = (st, Inr ())"
| "copy_matching base_name base_dir dest_dir (f # rest) st =
     (if startswith f base_name then
        (let full_path = join base_dir f
         in if isfile full_path st then
              (case copy2 full_path dest_dir st of
                 (st', Inl e) \<Rightarrow> (st', Inl e)
               | (st', Inr _) \<Rightarrow> copy_matching base_name base_dir dest_dir rest st')
            else copy_matching base_name base_dir dest_dir rest st)
      else copy_matching base_name base_dir dest_dir rest st)"

definition copy_associated_files :: "string \<Rightarrow> string \<Rightarrow> state \<Rightarrow> state \<times> (exn + unit)" where
  "copy_associated_files source_file dest_dir st =
     (let base_name = fst (splitext (basename source_file));
          base_dir = dirname source_file
      in case listdir base_dir st of
           Inl e \<Rightarrow> (st, Inl e)
         | Inr listing \<Rightarrow> copy_matching base_name base_dir dest_dir listing st)"

subsection \<open>\<open>CloneThread.run\<close>\<close>

definition progress_value :: "nat \<Rightarrow> nat \<Rightarrow> int" where
  \<comment> \<open>\<open>int(10 + (i / total_layers) * 80)\<close>, in exact arithmetic\<close>
  "progress_value i total_layers = \<lfloor>10 + (real i / real total_layers) * 80\<rfloor>"

definition save_style :: "layer \<Rightarrow> string \<Rightarrow> state \<Rightarrow> state" where
  \<comment> \<open>\<open>layer.saveNamedStyle(style_file)\<close>\<close>
  "save_style l style_file st =
     (if style_ok l then emit (file_io (SaveNamedStyle style_file)) (add_file style_file st)
      else st)"

definition copy_data ::
  "CloneThread \<Rightarrow> string \<Rightarrow> layer \<Rightarrow> string \<Rightarrow> string list \<Rightarrow> state
     \<Rightarrow> state \<times> (exn + string list)" where
  \<comment> \<open>the block \<open>if self.include_data and os.path.isfile(source): ...\<close>\<close>
  "copy_data self t l layer_name layer_files st =
     (let src = source l
      in if include_data self \<and> isfile src st then
           (let dest_file = join t (layer_name @ snd (splitext src))
            in case copy2 src dest_file st of
                 (st', Inl e) \<Rightarrow> (st', Inl e)
               | (st', Inr _) \<Rightarrow>
                   (case copy_associated_files src t st' of
                      (st'', Inl e) \<Rightarrow> (st'', Inl e)
                    | (st'', Inr _) \<Rightarrow> (st'', Inr (layer_files @ [dest_file]))))
         else (st, Inr layer_files))"

definition write_definition ::
  "host \<Rightarrow> string \<Rightarrow> layer \<Rightarrow> string \<Rightarrow> string list \<Rightarrow> state \<Rightarrow> state \<times> string list" where
  \<comment> \<open>the \<open>try: ... except Exception: pass\<close> block for a vector layer\<close>
  "write_definition h t l layer_name layer_files st =
     (let layer_def_file = join t (layer_name @ ''.qlr'')
      in if has_writeLayer h then
           (if writeLayer_raises l then (st, layer_files)
            else (emit (file_io (WriteLayer layer_def_file)) (add_file layer_def_file st),
                  layer_files @ [layer_def_file]))
         else (st, layer_files))"

definition export_layer ::
  "CloneThread \<Rightarrow> host \<Rightarrow> string \<Rightarrow> layer \<Rightarrow> string list \<Rightarrow> state
     \<Rightarrow> state \<times> (exn + string list)" where
  \<comment> \<open>the body of the layer loop after the progress signal; \<open>t\<close> is \<open>self.temp_dir\<close>, the
      result is \<open>layer_files\<close>\<close>
  "export_layer self h t l layer_files st =
     (if kind l = QgsVectorLayer \<or> kind l = QgsRasterLayer then
        (let layer_name = sanitize_filename (name l);
             st1 = emit (status_updated (''Processing layer: '' @ layer_name)) st
         in case copy_data self t l layer_name layer_files st1 of
              (st2, Inl e) \<Rightarrow> (st2, Inl e)
            | (st2, Inr layer_files2) \<Rightarrow>
                (let style_file = join t (layer_name @ ''.qml'');
                     st3 = save_style l style_file st2;
                     layer_files3 = layer_files2 @ [style_file]
                 in if kind l = QgsVectorLayer then
                      (case write_definition h t l layer_name layer_files3 st3 of
                         (st4, layer_files4) \<Rightarrow> (st4, Inr layer_files4))
                    else (st3, Inr layer_files3)))
      else (st, Inr layer_files))"

fun export_layers ::
  "CloneThread \<Rightarrow> host \<Rightarrow> string \<Rightarrow> nat \<Rightarrow> nat \<Rightarrow> layer list \<Rightarrow> string list \<Rightarrow> state
     \<Rightarrow> state \<times> (exn + string list)" where
  \<comment> \<open>\<open>for i, layer in enumerate(layers.values(), start=1)\<close>, from index \<open>i\<close> on\<close>
  "export_layers self h t total_layers i [] layer_files st = (st, Inr layer_files)"
| "export_layers self h t total_layers i (l # rest) layer_files st =
     (if total_layers = 0 then (st, Inl ZeroDivisionError)
      else
        (let st1 = emit (progress_updated (progress_value i total_layers)) st
         in case export_layer self h t l layer_files st1 of
              (st2, Inl e) \<Rightarrow> (st2, Inl e)
            | (st2, Inr layer_files') \<Rightarrow>
                export_layers self h t total_layers (Suc i) rest layer_files' st2))"

definition package ::
  "CloneThread \<Rightarrow> host \<Rightarrow> string \<Rightarrow> string \<Rightarrow> string list \<Rightarrow> nat \<Rightarrow> state
     \<Rightarrow> state \<times> (exn + unit)" where
  \<comment> \<open>the \<open>with zipfile.ZipFile(...)\<close> block\<close>
  "package self h t project_backup layer_files total_layers st =
     (if zip_open_raises h then (st, Inl (OSError (output_path self)))
      else
        (let st1 = emit (file_io (ZipOpen (output_path self))) (st\<lparr>archive := Some []\<rparr>)
         in case zip_write project_backup ''project.qgz'' st1 of
              (st2, Inl e) \<Rightarrow> (st2, Inl e)
            | (st2, Inr _) \<Rightarrow>
                (case zip_write_all layer_files st2 of
                   (st3, Inl e) \<Rightarrow> (st3, Inl e)
                 | (st3, Inr _) \<Rightarrow>
                     (let md = \<lparr>created = now_isoformat h, qgis_version = QGIS_VERSION h,
                                layer_count = total_layers,
                                include_data_flag = include_data self\<rparr>;
                          metadata_file = join t ''metadata.json'';
                          st4 = emit (file_io (JsonDump metadata_file))
                                  ((add_file metadata_file st3)\<lparr>metadata_json := Some md\<rparr>)
                      in zip_write metadata_file ''metadata.json'' st4))))"

definition start :: "host \<Rightarrow> state \<Rightarrow> state \<times> (exn + string)" where
  \<comment> \<open>the first status message and \<open>self.temp_dir = tempfile.mkdtemp()\<close>\<close>
  "start h st0 =
     (let st1 = emit (status_updated ''Starting project clone...'') st0
      in if mkdtemp_raises h then (st1, Inl (OSError (gettempdir h)))
         else
           (let t = join (gettempdir h) (''tmp'' @ mkdtemp_name h)
            in (emit (file_io (Mkdtemp t)) (st1\<lparr>dirs := dirs st1 @ [t], temp_dir := Some t\<rparr>),
                Inr t)))"

definition backup :: "host \<Rightarrow> string \<Rightarrow> state \<Rightarrow> state" where
  \<comment> \<open>the snapshot stage; \<open>project.write\<close> returns a flag and does not raise\<close>
  "backup h t st =
     (let st1 = emit (status_updated ''Backing up project file...'') st;
          project_backup = join t ''project.qgz'';
          st2 = (if write_ok h
                 then emit (file_io (ProjectWrite project_backup)) (add_file project_backup st1)
                 else st1)
      in emit (progress_updated 10) st2)"

definition finish :: "CloneThread \<Rightarrow> state \<Rightarrow> state" where
  \<comment> \<open>the three signals after the \<open>with\<close> block\<close>
  "finish self st =
     emit (finished_signal True (''Project cloned successfully to: '' @ output_path self))
       (emit (status_updated ''Clone completed successfully!'')
          (emit (progress_updated 100) st))"

definition run_try :: "CloneThread \<Rightarrow> host \<Rightarrow> state \<Rightarrow> state \<times> exn option" where
  \<comment> \<open>the \<open>try\<close> block: \<open>Some e\<close> when it raises \<open>e\<close>, \<open>None\<close> when it completes or returns\<close>
  "run_try self h st0 =
     (case start h st0 of
        (st1, Inl e) \<Rightarrow> (st1, Some e)
      | (st2, Inr t) \<Rightarrow>
          (let project_file = fileName h
           in if project_file = [] then
                (emit (finished_signal False ''No project file is currently open.'') st2, None)
              else
                (let st5 = backup h t st2;
                     project_backup = join t ''project.qgz'';
                     layers = mapLayers h;
                     total_layers = length layers
                 in case export_layers self h t total_layers 1 layers [] st5 of
                      (st6, Inl e) \<Rightarrow> (st6, Some e)
                    | (st6, Inr layer_files) \<Rightarrow>
                        (let st7 = emit (status_updated ''Creating ZIP package...'') st6
                         in case package self h t project_backup layer_files total_layers st7 of
                              (st8, Inl e) \<Rightarrow> (st8, Some e)
                            | (st8, Inr _) \<Rightarrow> (finish self st8, None)))))"

definition handle :: "state \<times> exn option \<Rightarrow> state" where
  \<comment> \<open>the \<open>except Exception as e\<close> clause\<close>
  "handle r =
     (case r of
        (st, None) \<Rightarrow> st
      | (st, Some e) \<Rightarrow>
          emit (finished_signal False (''Error during cloning: '' @ str_exn e))
            (emit (logMessage (str_exn e)) st))"

definition cleanup :: "state \<Rightarrow> state" where
  \<comment> \<open>the \<open>finally\<close> clause\<close>
  "cleanup st =
     (case temp_dir st of
        None \<Rightarrow> st
      | Some t \<Rightarrow> if t \<noteq> [] \<and> path_exists t st then rmtree t st else st)"

definition run :: "CloneThread \<Rightarrow> host \<Rightarrow> state \<Rightarrow> state" where
  "run self h st0 = cleanup (handle (run_try self h st0))"

text \<open>Reading the signals off the trace of a run.\<close>

definition progress_of :: "event list \<Rightarrow> int list" where
  "progress_of es = concat (map (\<lambda>e. case e of progress_updated n \<Rightarrow> [n] | _ \<Rightarrow> []) es)"

definition outcomes_of :: "event list \<Rightarrow> (bool \<times> string) list" where
  "outcomes_of es = concat (map (\<lambda>e. case e of finished_signal b m \<Rightarrow> [(b, m)] | _ \<Rightarrow> []) es)"

definition file_ops_of :: "event list \<Rightarrow> file_op list" where
  "file_ops_of es = concat (map (\<lambda>e. case e of file_io f \<Rightarrow> [f] | _ \<Rightarrow> []) es)"

definition succeeded :: "state \<Rightarrow> bool" where
  \<comment> \<open>a success outcome has been emitted\<close>
  "succeeded st = list_ex fst (outcomes_of (events st))"

definition style_saves :: "event list \<Rightarrow> string list" where
  "style_saves es =
     concat (map (\<lambda>e. case e of file_io (SaveNamedStyle p) \<Rightarrow> [p] | _ \<Rightarrow> []) es)"

definition def_writes :: "event list \<Rightarrow> string list" where
  "def_writes es =
     concat (map (\<lambda>e. case e of file_io (WriteLayer p) \<Rightarrow> [p] | _ \<Rightarrow> []) es)"

definition reported :: "event list \<Rightarrow> event list" where
  \<comment> \<open>the progress and outcome signals of a trace\<close>
  "reported es =
     filter (\<lambda>e. case e of progress_updated _ \<Rightarrow> True | finished_signal _ _ \<Rightarrow> True
                 | _ \<Rightarrow> False) es"

definition noise :: "event \<Rightarrow> bool" where
  \<comment> \<open>status messages and file copies\<close>
  "noise e = (case e of status_updated _ \<Rightarrow> True | file_io (Copy2 _ _) \<Rightarrow> True | _ \<Rightarrow> False)"

definition kept :: "state \<Rightarrow> state \<Rightarrow> bool" where
  \<comment> \<open>what the layer loop leaves alone: directories, \<open>self.temp_dir\<close>, the archive and the
      manifest; files are only added\<close>
  "kept st st' \<longleftrightarrow>
     dirs st' = dirs st \<and> temp_dir st' = temp_dir st \<and> archive st' = archive st \<and>
     metadata_json st' = metadata_json st \<and> set (files st) \<subseteq> set (files st')"

definition silent :: "state \<Rightarrow> state \<Rightarrow> bool" where
  "silent st st' \<longleftrightarrow> kept st st' \<and> (\<exists>es. events st' = events st @ es \<and> list_all noise es)"

definition data_bearing :: "layer \<Rightarrow> bool" where
  \<comment> \<open>\<open>isinstance(layer, (QgsVectorLayer, QgsRasterLayer))\<close>\<close>
  "data_bearing l = (kind l = QgsVectorLayer \<or> kind l = QgsRasterLayer)"

definition style_path :: "string \<Rightarrow> layer \<Rightarrow> string" where
  "style_path t l = join t (sanitize_filename (name l) @ ''.qml'')"

definition def_path :: "string \<Rightarrow> layer \<Rightarrow> string" where
  "def_path t l = join t (sanitize_filename (name l) @ ''.qlr'')"

definition data_path :: "string \<Rightarrow> layer \<Rightarrow> string" where
  "data_path t l = join t (sanitize_filename (name l) @ snd (splitext (source l)))"

definition mkdtemp_path :: "host \<Rightarrow> string" where
  "mkdtemp_path h = join (gettempdir h) (''tmp'' @ mkdtemp_name h)"

definition layer_entries :: "CloneThread \<Rightarrow> host \<Rightarrow> string \<Rightarrow> layer \<Rightarrow> state \<Rightarrow> string list" where
  \<comment> \<open>what a layer adds to \<open>layer_files\<close> when its export does not raise\<close>
  "layer_entries self h t l st =
     (if data_bearing l then
        (if include_data self \<and> isfile (source l) st then [data_path t l] else [])
        @ [style_path t l]
        @ (if kind l = QgsVectorLayer \<and> has_writeLayer h \<and> \<not> writeLayer_raises l
           then [def_path t l] else [])
      else [])"

definition no_definition :: "host \<Rightarrow> layer \<Rightarrow> bool" where
  \<comment> \<open>a vector layer whose definition cannot be written: no \<open>writeLayer\<close>, or it raises\<close>
  "no_definition h l \<longleftrightarrow>
     (kind l = QgsVectorLayer \<longrightarrow> \<not> has_writeLayer h \<or> writeLayer_raises l)"

subsection \<open>A concrete project\<close>

text \<open>
  Two vector layers: \<open>Roads\<close>, backed by the shapefile \<open>/data/roads.shp\<close> with its
  siblings \<open>roads.dbf\<close> and \<open>roads.shx\<close>, and \<open>Rivers & Lakes\<close>, whose source does not
  exist. The host has no \<open>writeLayer\<close>.
\<close>

definition roads :: layer where
  "roads = \<lparr>kind = QgsVectorLayer, name = ''Roads'', source = ''/data/roads.shp'',
            style_ok = True, writeLayer_raises = False\<rparr>"

definition rivers_lakes :: layer where
  "rivers_lakes = \<lparr>kind = QgsVectorLayer, name = ''Rivers & Lakes'',
                   source = ''/data/rivers.shp'', style_ok = True, writeLayer_raises = False\<rparr>"

definition demo_host :: host where
  "demo_host =
     \<lparr>fileName = ''/home/user/city.qgz'', write_ok = True, mapLayers = [roads, rivers_lakes],
      has_writeLayer = False, QGIS_VERSION = ''3.34.0'', now_isoformat = ''2024-05-01T12:00:00'',
      gettempdir = ''/tmp'', mkdtemp_name = ''k3x9q2ab'', mkdtemp_raises = False,
      zip_open_raises = False\<rparr>"

definition demo_thread :: CloneThread where
  "demo_thread = \<lparr>output_path = ''/home/user/city_clone.zip'', include_data = True\<rparr>"

definition demo_state :: state where
  "demo_state =
     init_state [''/data/roads.shp'', ''/data/roads.dbf'', ''/data/roads.shx'']
                [''/data'', ''/tmp'']"

text \<open>The same project with a single layer that is neither vector nor raster.\<close>

definition mesh :: layer where
  "mesh = \<lparr>kind = OtherLayer, name = ''Mesh'', source = ''/data/mesh.nc'',
           style_ok = True, writeLayer_raises = False\<rparr>"

definition mesh_host :: host where
  "mesh_host = demo_host\<lparr>mapLayers := [mesh]\<rparr>"

text \<open>No project loaded.\<close>

definition closed_host :: host where
  "closed_host = demo_host\<lparr>fileName := []\<rparr>"

text \<open>A host with \<open>writeLayer\<close>, which raises for the one vector layer.\<close>

definition parcels :: layer where
  "parcels = \<lparr>kind = QgsVectorLayer, name = ''Parcels 2024'', source = ''/data/parcels.gpkg'',
              style_ok = True, writeLayer_raises = True\<rparr>"

definition raising_host :: host where
  "raising_host = demo_host\<lparr>mapLayers := [parcels], has_writeLayer := True\<rparr>"

definition styles_only :: CloneThread where
  "styles_only = \<lparr>output_path = ''/home/user/styles.zip'', include_data = False\<rparr>"

text \<open>A project without layers.\<close>

definition empty_host :: host where
  "empty_host = demo_host\<lparr>mapLayers := []\<rparr>"


definition manifest_of :: "CloneThread \<Rightarrow> host \<Rightarrow> nat \<Rightarrow> metadata" where
  "manifest_of self h n =
     \<lparr>created = now_isoformat h, qgis_version = QGIS_VERSION h, layer_count = n,
      include_data_flag = include_data self\<rparr>"

definition recorded_ok :: "CloneThread \<Rightarrow> host \<Rightarrow> string \<Rightarrow> string list \<Rightarrow> bool" where
  \<comment> \<open>every recorded file is the data copy, the style or the definition of some layer\<close>
  "recorded_ok self h t lf \<longleftrightarrow>
     (\<forall>p \<in> set lf. \<exists>l \<in> set (mapLayers h). data_bearing l \<and>
        (p = style_path t l \<or> (include_data self \<and> p = data_path t l) \<or>
         (\<not> no_definition h l \<and> p = def_path t l)))"

definition recorded_all :: "CloneThread \<Rightarrow> host \<Rightarrow> string \<Rightarrow> state \<Rightarrow> string list \<Rightarrow> bool" where
  \<comment> \<open>every vector or raster layer has its style recorded, its data copy when data is
      included and the source is a file from the start, and its definition when written\<close>
  "recorded_all self h t st0 lf \<longleftrightarrow>
     (\<forall>l \<in> set (mapLayers h). data_bearing l \<longrightarrow>
        style_path t l \<in> set lf \<and>
        (include_data self \<and> isfile (source l) st0 \<longrightarrow> data_path t l \<in> set lf) \<and>
        (\<not> no_definition h l \<longrightarrow> def_path t l \<in> set lf))"

section \<open>Properties\<close>

subsection \<open>Paths and the sanitizer\<close>



lemma sanitize_filename_map:
  "sanitize_filename s = map (\<lambda>c. if allowed c then c else CHR ''_'') s"
  by (induction s) (auto simp: sanitize_filename_def allowed_def)

lemma allowed_underscore: "allowed (CHR ''_'')"
  by (simp add: allowed_def)

lemma not_allowed_slash: "\<not> allowed (CHR ''/'')"
  by (simp add: allowed_def isalnum_def)

lemma sanitize_filename_allowed: "c \<in> set (sanitize_filename s) \<Longrightarrow> allowed c"
  by (auto simp: sanitize_filename_map allowed_underscore)

lemma sanitize_idem: "sanitize_filename (sanitize_filename s) = sanitize_filename s"
  by (simp add: sanitize_filename_map allowed_underscore)


lemma basename_no_slash:
  assumes "CHR ''/'' \<notin> set x" shows "basename x = x"
proof -
  have tw: "takeWhile (\<lambda>c. c \<noteq> CHR ''/'') (rev x) = rev x"
    using assms by (auto simp: takeWhile_eq_all_conv)
  show ?thesis unfolding basename_def tw by simp
qed

lemma basename_append_slash:
  assumes "CHR ''/'' \<notin> set x" shows "basename (a @ CHR ''/'' # x) = x"
proof -
  have "takeWhile (\<lambda>c. c \<noteq> CHR ''/'') (rev x @ CHR ''/'' # rev a) = rev x @ takeWhile (\<lambda>c. c \<noteq> CHR ''/'') (CHR ''/'' # rev a)"
    using assms by (intro takeWhile_append2) auto
  then show ?thesis by (simp add: basename_def)
qed

lemma startswith_slash: "startswith x ''/'' \<Longrightarrow> CHR ''/'' \<in> set x"
  by (cases x) auto

lemma basename_join: 
  assumes "CHR ''/'' \<notin> set x" shows "basename (join t x) = x"
proof -
  have ns: "\<not> startswith x ''/''" using assms startswith_slash by blast
  show ?thesis
  proof (cases "t = []")
    case True
    then show ?thesis using ns assms by (simp add: join_def basename_no_slash)
  next
    case False
    show ?thesis
    proof (cases "last t = CHR ''/''")
      case True
      with False obtain t' where t': "t = t' @ ''/''" by (metis append_butlast_last_id)
      have "basename (t @ x) = x"
        unfolding t' using basename_append_slash [OF assms, of t'] by simp
      then show ?thesis using ns True by (simp add: join_def)
    next
      case False
      then show ?thesis using ns assms \<open>t \<noteq> []\<close> by (simp add: join_def basename_append_slash)
    qed
  qed
qed

lemma ext_no_slash: "CHR ''/'' \<notin> set (snd (splitext p))"
proof -
  have "CHR ''/'' \<notin> set (basename p)"
    unfolding basename_def by (auto dest: set_takeWhileD)
  then have "CHR ''/'' \<notin> set (rev (takeWhile (\<lambda>c. c \<noteq> CHR ''.'') (rev (basename p))))"
    by (auto dest: set_takeWhileD)
  then show ?thesis by (simp add: splitext_def Let_def)
qed

lemma join_nonempty: "b \<noteq> [] \<Longrightarrow> join a b \<noteq> []"
  by (auto simp: join_def)


subsection \<open>The layer loop\<close>


lemma kept_refl: "kept st st" by (simp add: kept_def)
lemma kept_trans: "kept a b \<Longrightarrow> kept b c \<Longrightarrow> kept a c" by (auto simp: kept_def)
lemma silent_refl: "silent st st" by (simp add: silent_def kept_refl)
lemma silent_trans: "silent a b \<Longrightarrow> silent b c \<Longrightarrow> silent a c"
  unfolding silent_def by (auto intro: kept_trans)
lemma silent_kept: "silent a b \<Longrightarrow> kept a b" by (simp add: silent_def)

lemma reported_append: "reported (a @ b) = reported a @ reported b"
  by (simp add: reported_def)
lemma style_saves_append: "style_saves (a @ b) = style_saves a @ style_saves b"
  by (simp add: style_saves_def)
lemma def_writes_append: "def_writes (a @ b) = def_writes a @ def_writes b"
  by (simp add: def_writes_def)

lemma noise_reported: "list_all noise es \<Longrightarrow> reported es = []"
  by (induction es) (auto simp: reported_def noise_def split: event.splits file_op.splits)
lemma noise_style_saves: "list_all noise es \<Longrightarrow> style_saves es = []"
  by (induction es) (auto simp: style_saves_def noise_def split: event.splits file_op.splits)
lemma noise_def_writes: "list_all noise es \<Longrightarrow> def_writes es = []"
  by (induction es) (auto simp: def_writes_def noise_def split: event.splits file_op.splits)

lemma kept_emit: "kept st (emit e st)" by (simp add: kept_def emit_def)
lemma kept_add_file: "kept st (add_file p st)" by (auto simp: kept_def add_file_def)

lemma silent_emit: "noise e \<Longrightarrow> silent st (emit e st)"
  by (simp add: silent_def kept_emit) (simp add: emit_def)
lemma silent_add_file: "silent st (add_file p st)"
  by (simp add: silent_def kept_add_file) (simp add: add_file_def)

lemma noise_status: "noise (status_updated m)" by (simp add: noise_def)
lemma noise_copy: "noise (file_io (Copy2 a b))" by (simp add: noise_def)

lemma copy2_silent: "copy2 a b st = (st', r) \<Longrightarrow> silent st st'"
  by (auto simp: copy2_def Let_def silent_refl noise_copy split: if_splits
           intro: silent_trans [OF silent_add_file silent_emit])

lemma copy_matching_silent:
  "copy_matching bn bd dd fs st = (st', r) \<Longrightarrow> silent st st'"
proof (induction fs arbitrary: st)
  case Nil
  then show ?case by (simp add: silent_refl)
next
  case (Cons f fs)
  show ?case
  proof (cases "startswith f bn \<and> isfile (join bd f) st")
    case False
    with Cons show ?thesis by (auto simp: Let_def split: if_splits)
  next
    case True
    obtain st1 r1 where c: "copy2 (join bd f) dd st = (st1, r1)" by (cases "copy2 (join bd f) dd st")
    have q1: "silent st st1" using c by (rule copy2_silent)
    show ?thesis
    proof (cases r1)
      case (Inl e)
      with Cons.prems True c q1 show ?thesis by (simp add: Let_def)
    next
      case (Inr u)
      with Cons.prems True c have "copy_matching bn bd dd fs st1 = (st', r)" by (simp add: Let_def)
      from Cons.IH [OF this] q1 show ?thesis by (blast intro: silent_trans)
    qed
  qed
qed

lemma copy_associated_files_silent:
  "copy_associated_files s d st = (st', r) \<Longrightarrow> silent st st'"
  by (auto simp: copy_associated_files_def Let_def silent_refl split: sum.splits
           dest: copy_matching_silent)


lemma copy_data_silent: "copy_data self t l n lf st = (st', r) \<Longrightarrow> silent st st'"
  by (auto simp: copy_data_def Let_def silent_refl split: if_splits prod.splits sum.splits
      dest!: copy2_silent copy_associated_files_silent intro: silent_trans)

lemma copy_data_files: "copy_data self t l (sanitize_filename (name l)) lf st = (st', Inr lf') \<Longrightarrow>
   lf' = lf @ (if include_data self \<and> isfile (source l) st then [data_path t l] else [])"
  by (auto simp: copy_data_def Let_def data_path_def split: if_splits prod.splits sum.splits)

lemma copy_data_off: "\<not> include_data self \<Longrightarrow> copy_data self t l n lf st = (st, Inr lf)"
  by (simp add: copy_data_def)

lemma save_style_kept: "kept st (save_style l p st)"
  by (auto simp: save_style_def kept_refl intro: kept_trans [OF kept_add_file kept_emit])

lemma save_style_events:
  "events (save_style l p st) = events st @ (if style_ok l then [file_io (SaveNamedStyle p)] else [])"
  by (simp add: save_style_def emit_def add_file_def)

lemma write_definition_kept: "write_definition h t l n lf st = (st', lf') \<Longrightarrow> kept st st'"
  by (auto simp: write_definition_def Let_def kept_refl split: if_splits
           intro: kept_trans [OF kept_add_file kept_emit])

lemma write_definition_result: "write_definition h t l (sanitize_filename (name l)) lf st = (st', lf') \<Longrightarrow>
    (let w = (if has_writeLayer h \<and> \<not> writeLayer_raises l then [def_path t l] else [])
     in lf' = lf @ w \<and> events st' = events st @ map (\<lambda>p. file_io (WriteLayer p)) w)"
  by (auto simp: write_definition_def Let_def def_path_def emit_def add_file_def split: if_splits)


lemma isfile_emit: "isfile p (emit e st) = isfile p st" by (simp add: isfile_def emit_def)
lemma isfile_add_file: "isfile p (add_file q st) \<longleftrightarrow> p = q \<or> isfile p st"
  by (auto simp: isfile_def add_file_def)
lemma kept_isfile: "kept st st' \<Longrightarrow> isfile p st \<Longrightarrow> isfile p st'"
  by (auto simp: kept_def isfile_def)


lemma style_event_proj:
  "reported (if b then [file_io (SaveNamedStyle p)] else []) = []"
  "style_saves (if b then [file_io (SaveNamedStyle p)] else []) = (if b then [p] else [])"
  "def_writes (if b then [file_io (SaveNamedStyle p)] else []) = []"
  by (simp_all add: reported_def style_saves_def def_writes_def)

lemma def_event_proj:
  "reported (map (\<lambda>p. file_io (WriteLayer p)) w) = []"
  "style_saves (map (\<lambda>p. file_io (WriteLayer p)) w) = []"
  "def_writes (map (\<lambda>p. file_io (WriteLayer p)) w) = w"
  by (induction w) (simp_all add: reported_def style_saves_def def_writes_def)

lemma export_layer_effect:
  assumes "export_layer self h t l lf st = (st', r)"
  shows "kept st st' \<and>
     (\<exists>es. events st' = events st @ es \<and> reported es = [] \<and>
        (case r of
           Inl e \<Rightarrow> style_saves es = [] \<and> def_writes es = []
         | Inr lf' \<Rightarrow>
             style_saves es = (if data_bearing l \<and> style_ok l then [style_path t l] else []) \<and>
             def_writes es =
               (if kind l = QgsVectorLayer \<and> has_writeLayer h \<and> \<not> writeLayer_raises l
                then [def_path t l] else []) \<and>
             lf' = lf @ layer_entries self h t l st))"
proof (cases "data_bearing l")
  case False
  with assms have "st' = st" "r = Inr lf"
    by (auto simp: export_layer_def data_bearing_def)
  with False show ?thesis
    by (simp add: kept_refl reported_def style_saves_def def_writes_def layer_entries_def data_bearing_def)
next
  case True
  define n where "n = sanitize_filename (name l)"
  define st1 where "st1 = emit (status_updated (''Processing layer: '' @ n)) st"
  obtain st2 r2 where cd: "copy_data self t l n lf st1 = (st2, r2)"
    by (cases "copy_data self t l n lf st1")
  have k1: "kept st st1" unfolding st1_def by (rule kept_emit)
  from cd have s2: "silent st1 st2" by (rule copy_data_silent)
  then obtain cs where e2: "events st2 = events st1 @ cs" and ncs: "list_all noise cs"
    by (auto simp: silent_def)
  define ns where "ns = status_updated (''Processing layer: '' @ n) # cs"
  have ev2: "events st2 = events st @ ns"
    using e2 by (simp add: st1_def emit_def ns_def)
  have "list_all noise ns" using ncs by (simp add: ns_def noise_status)
  then have ns: "reported ns = []" "style_saves ns = []" "def_writes ns = []"
    by (simp_all add: noise_reported noise_style_saves noise_def_writes)
  have k2: "kept st st2" using k1 s2 by (blast intro: kept_trans silent_kept)
  show ?thesis
  proof (cases r2)
    case (Inl e)
    with assms True cd have "st' = st2" "r = Inl e"
      by (auto simp: export_layer_def data_bearing_def Let_def n_def st1_def)
    with k2 ev2 ns show ?thesis by auto
  next
    case (Inr lf2)
    have lf2: "lf2 = lf @ (if include_data self \<and> isfile (source l) st then [data_path t l] else [])"
      using copy_data_files [of self t l lf st1 st2 lf2] cd Inr
      by (simp add: n_def st1_def isfile_emit)
    define st3 where "st3 = save_style l (join t (n @ ''.qml'')) st2"
    define S where "S = (if style_ok l then [file_io (SaveNamedStyle (style_path t l))] else [])"
    have k3: "kept st st3" unfolding st3_def using k2 save_style_kept by (blast intro: kept_trans)
    have ev3: "events st3 = events st @ (ns @ S)"
      unfolding st3_def S_def by (simp add: save_style_events style_path_def n_def ev2)
    have S: "reported S = []" "style_saves S = (if style_ok l then [style_path t l] else [])"
       "def_writes S = []"
      unfolding S_def by (rule style_event_proj)+
    show ?thesis
    proof (cases "kind l = QgsVectorLayer")
      case False
      with assms True cd Inr have "st' = st3" "r = Inr (lf2 @ [style_path t l])"
        by (auto simp: export_layer_def data_bearing_def Let_def n_def st1_def st3_def style_path_def)
      moreover have "layer_entries self h t l st = (if include_data self \<and> isfile (source l) st then [data_path t l] else []) @ [style_path t l]"
        using True False by (simp add: layer_entries_def)
      ultimately show ?thesis using k3 ev3 ns S lf2 True False
        by (auto simp: reported_append style_saves_append def_writes_append)
    next
      case vec: True
      define w where "w = (if has_writeLayer h \<and> \<not> writeLayer_raises l then [def_path t l] else [])"
      obtain st4 lf4 where wd: "write_definition h t l n (lf2 @ [style_path t l]) st3 = (st4, lf4)"
        by (cases "write_definition h t l n (lf2 @ [style_path t l]) st3")
      with assms True cd Inr vec have r: "st' = st4" "r = Inr lf4"
        by (auto simp: export_layer_def data_bearing_def Let_def n_def st1_def st3_def style_path_def)
      have k4: "kept st st4" using k3 write_definition_kept [OF wd] by (blast intro: kept_trans)
      from write_definition_result [of h t l "lf2 @ [style_path t l]" st3 st4 lf4] wd
      have lf4: "lf4 = (lf2 @ [style_path t l]) @ w"
        and "events st4 = events st3 @ map (\<lambda>p. file_io (WriteLayer p)) w"
        by (simp_all add: n_def Let_def w_def)
      then have ev4: "events st4 = events st @ (ns @ S @ map (\<lambda>p. file_io (WriteLayer p)) w)"
        using ev3 by simp
      have le: "layer_entries self h t l st = (if include_data self \<and> isfile (source l) st then [data_path t l] else []) @ [style_path t l] @ w"
        using True vec by (simp add: layer_entries_def w_def)
      have "def_writes (ns @ S @ map (\<lambda>p. file_io (WriteLayer p)) w) = w"
           "style_saves (ns @ S @ map (\<lambda>p. file_io (WriteLayer p)) w) = (if style_ok l then [style_path t l] else [])"
           "reported (ns @ S @ map (\<lambda>p. file_io (WriteLayer p)) w) = []"
        by (simp_all add: reported_append style_saves_append def_writes_append ns S def_event_proj)
      with r k4 ev4 le lf4 lf2 True vec show ?thesis
        by (auto simp: w_def)
    qed
  qed
qed


lemma progress_event_proj:
  "reported [progress_updated v] = [progress_updated v]"
  "style_saves [progress_updated v] = []"
  "def_writes [progress_updated v] = []"
  by (simp_all add: reported_def style_saves_def def_writes_def)

lemma empty_proj: "reported [] = []" "style_saves [] = []" "def_writes [] = []"
  by (simp_all add: reported_def style_saves_def def_writes_def)


lemma export_layers_events:
  "export_layers self h t n i ls lf st = (st', r) \<Longrightarrow>
   kept st st' \<and>
   (\<exists>es k. events st' = events st @ es \<and> k \<le> length ls \<and>
      reported es = map (\<lambda>j. progress_updated (progress_value j n)) [i..<i + k] \<and>
      (case r of Inl e \<Rightarrow> True
       | Inr lf' \<Rightarrow> k = length ls \<and>
           style_saves es = map (style_path t) (filter (\<lambda>l. data_bearing l \<and> style_ok l) ls)) \<and>
      (list_all (no_definition h) ls \<longrightarrow> def_writes es = []))"
proof (induction ls arbitrary: i lf st)
  case Nil
  then have "st' = st" "r = Inr lf" by simp_all
  then show ?case
    by (intro conjI exI [of _ "[]"] exI [of _ 0]) (simp_all add: kept_refl empty_proj)
next
  case (Cons l ls)
  show ?case
  proof (cases "n = 0")
    case True
    with Cons.prems have "st' = st" "r = Inl ZeroDivisionError" by simp_all
    then show ?thesis
      by (intro conjI exI [of _ "[]"] exI [of _ 0]) (simp_all add: kept_refl empty_proj)
  next
    case False
    define st1 where "st1 = emit (progress_updated (progress_value i n)) st"
    obtain st2 r2 where el: "export_layer self h t l lf st1 = (st2, r2)"
      by (cases "export_layer self h t l lf st1")
    from export_layer_effect [OF el] obtain es1 where
      k12: "kept st1 st2" and e12: "events st2 = events st1 @ es1" and rep1: "reported es1 = []"
      and c1: "case r2 of
           Inl e \<Rightarrow> style_saves es1 = [] \<and> def_writes es1 = []
         | Inr lf' \<Rightarrow>
             style_saves es1 = (if data_bearing l \<and> style_ok l then [style_path t l] else []) \<and>
             def_writes es1 =
               (if kind l = QgsVectorLayer \<and> has_writeLayer h \<and> \<not> writeLayer_raises l
                then [def_path t l] else []) \<and>
             lf' = lf @ layer_entries self h t l st1"
      by blast
    have k02: "kept st st2" using kept_emit [of st] k12 unfolding st1_def by (blast intro: kept_trans)
    have e02: "events st2 = events st @ (progress_updated (progress_value i n) # es1)"
      using e12 by (simp add: st1_def emit_def)
    show ?thesis
    proof (cases r2)
      case (Inl e)
      with Cons.prems False el have res: "st' = st2" "r = Inl e" by (simp_all add: st1_def Let_def)
      have "reported (progress_updated (progress_value i n) # es1) = map (\<lambda>j. progress_updated (progress_value j n)) [i..<i + 1]"
        using rep1 reported_append [of "[progress_updated (progress_value i n)]" es1]
        by (simp add: progress_event_proj)
      moreover have "def_writes (progress_updated (progress_value i n) # es1) = []"
        using c1 Inl def_writes_append [of "[progress_updated (progress_value i n)]" es1]
        by (simp add: progress_event_proj)
      ultimately show ?thesis unfolding res using k02 e02
        by (intro conjI exI [of _ "progress_updated (progress_value i n) # es1"] exI [of _ 1]) simp_all
    next
      case (Inr lf2)
      with Cons.prems False el have rec: "export_layers self h t n (Suc i) ls lf2 st2 = (st', r)"
        by (simp add: st1_def Let_def)
      from Cons.IH [OF rec] obtain es2 k2 where
        k2': "kept st2 st'" and e2': "events st' = events st2 @ es2" and kl: "k2 \<le> length ls"
        and rep2: "reported es2 = map (\<lambda>j. progress_updated (progress_value j n)) [Suc i..<Suc i + k2]"
        and c2: "case r of Inl e \<Rightarrow> True
            | Inr lf' \<Rightarrow> k2 = length ls \<and>
               style_saves es2 = map (style_path t) (filter (\<lambda>l. data_bearing l \<and> style_ok l) ls)"
        and d2: "list_all (no_definition h) ls \<longrightarrow> def_writes es2 = []"
        by blast
      define es where "es = progress_updated (progress_value i n) # es1 @ es2"
      have es_split: "es = [progress_updated (progress_value i n)] @ es1 @ es2" by (simp add: es_def)
      have ev: "events st' = events st @ es" using e02 e2' by (simp add: es_def)
      have u: "[i..<i + Suc k2] = i # [Suc i..<Suc i + k2]" by (simp add: upt_conv_Cons)
      have "reported es = map (\<lambda>j. progress_updated (progress_value j n)) (i # [Suc i..<Suc i + k2])"
        unfolding es_split reported_append rep1 rep2 by (simp add: progress_event_proj)
      then have rep: "reported es = map (\<lambda>j. progress_updated (progress_value j n)) [i..<i + Suc k2]"
        by (simp only: u)
      have sty: "style_saves es = style_saves es1 @ style_saves es2"
        unfolding es_split style_saves_append by (simp add: progress_event_proj)
      have dw: "def_writes es = def_writes es1 @ def_writes es2"
        unfolding es_split def_writes_append by (simp add: progress_event_proj)
      have dres: "list_all (no_definition h) (l # ls) \<longrightarrow> def_writes es = []"
        using c1 Inr d2 dw by (auto simp: no_definition_def)
      have cres: "case r of Inl e \<Rightarrow> True
            | Inr lf' \<Rightarrow> Suc k2 = length (l # ls) \<and>
               style_saves es = map (style_path t) (filter (\<lambda>l. data_bearing l \<and> style_ok l) (l # ls))"
        using c1 c2 Inr sty by (auto split: sum.splits)
      show ?thesis using kept_trans [OF k02 k2'] ev kl rep cres dres 
        by (intro conjI exI [of _ es] exI [of _ "Suc k2"]) simp_all
    qed
  qed
qed



subsection \<open>The sanitizer\<close>


text \<open>
  C9. The sanitizer is idempotent and keeps the length of its argument: every character
  is mapped to exactly one character.
\<close>

theorem sanitize_filename_idempotent_length:
  "sanitize_filename (sanitize_filename s) = sanitize_filename s \<and>
   length (sanitize_filename s) = length s"
  by (simp add: sanitize_idem) (simp add: sanitize_filename_map)



subsection \<open>Packaging\<close>

lemma zip_write_effect:
  "zip_write p a st = (st', r) \<Longrightarrow>
   files st' = files st \<and> dirs st' = dirs st \<and> events st' = events st \<and>
   temp_dir st' = temp_dir st \<and> metadata_json st' = metadata_json st \<and>
   (case r of Inl e \<Rightarrow> \<not> isfile p st \<and> archive st' = archive st
    | Inr u \<Rightarrow> isfile p st \<and> archive st' = map_option (\<lambda>es. es @ [a]) (archive st))"
  by (auto simp: zip_write_def split: if_splits)

lemma zip_write_all_effect:
  "zip_write_all lf st = (st', r) \<Longrightarrow>
   files st' = files st \<and> dirs st' = dirs st \<and> events st' = events st \<and>
   temp_dir st' = temp_dir st \<and> metadata_json st' = metadata_json st \<and>
   (\<exists>xs. set xs \<subseteq> basename ` set lf \<and> archive st' = map_option (\<lambda>es. es @ xs) (archive st)) \<and>
   (case r of Inl e \<Rightarrow> (\<exists>p \<in> set lf. \<not> isfile p st)
    | Inr u \<Rightarrow> (\<forall>p \<in> set lf. isfile p st) \<and>
               archive st' = map_option (\<lambda>es. es @ map basename lf) (archive st))"
proof (induction lf arbitrary: st)
  case Nil
  then have "st' = st" "r = Inr ()" by simp_all
  then show ?case by (auto intro: exI [of _ "[]"] simp: option.map_ident)
next
  case (Cons p lf)
  obtain st1 r1 where z: "zip_write p (basename p) st = (st1, r1)"
    by (cases "zip_write p (basename p) st")
  note e1 = zip_write_effect [OF z]
  show ?case
  proof (cases r1)
    case (Inl e)
    with Cons.prems z have "st' = st1" "r = Inl e" by simp_all
    with e1 Inl show ?thesis by (auto intro: exI [of _ "[]"] simp: option.map_ident)
  next
    case (Inr u)
    with Cons.prems z have rec: "zip_write_all lf st1 = (st', r)" by simp
    from Cons.IH [OF rec] obtain xs where
      f: "files st' = files st1" "dirs st' = dirs st1" "events st' = events st1"
         "temp_dir st' = temp_dir st1" "metadata_json st' = metadata_json st1"
      and xs: "set xs \<subseteq> basename ` set lf" "archive st' = map_option (\<lambda>es. es @ xs) (archive st1)"
      and c: "case r of Inl e \<Rightarrow> (\<exists>p \<in> set lf. \<not> isfile p st1)
            | Inr u \<Rightarrow> (\<forall>p \<in> set lf. isfile p st1) \<and>
               archive st' = map_option (\<lambda>es. es @ map basename lf) (archive st1)"
      by blast
    have same: "\<And>q. isfile q st1 = isfile q st" using e1 by (simp add: isfile_def)
    have a1: "archive st1 = map_option (\<lambda>es. es @ [basename p]) (archive st)" "isfile p st"
      using e1 Inr by simp_all
    have "archive st' = map_option (\<lambda>es. es @ (basename p # xs)) (archive st)"
      using xs(2) a1(1) by (simp add: option.map_comp comp_def)
    moreover have "set (basename p # xs) \<subseteq> basename ` set (p # lf)" using xs(1) by auto
    ultimately have ex: "\<exists>xs. set xs \<subseteq> basename ` set (p # lf) \<and> archive st' = map_option (\<lambda>es. es @ xs) (archive st)"
      by blast
    have c': "case r of Inl e \<Rightarrow> (\<exists>q \<in> set (p # lf). \<not> isfile q st)
            | Inr u \<Rightarrow> (\<forall>q \<in> set (p # lf). isfile q st) \<and>
               archive st' = map_option (\<lambda>es. es @ map basename (p # lf)) (archive st)"
      using c a1 same by (auto split: sum.splits simp: option.map_comp comp_def)
    show ?thesis using f e1 ex c' by simp
  qed
qed



lemma zip_event_proj:
  "reported [file_io (ZipOpen p), file_io (JsonDump q)] = []"
  "style_saves [file_io (ZipOpen p), file_io (JsonDump q)] = []"
  "def_writes [file_io (ZipOpen p), file_io (JsonDump q)] = []"
  "reported [file_io (ZipOpen p)] = []"
  "style_saves [file_io (ZipOpen p)] = []"
  "def_writes [file_io (ZipOpen p)] = []"
  by (simp_all add: reported_def style_saves_def def_writes_def)

lemma package_effect:
  assumes "package self h t pb lf n st = (st', r)"
  shows "dirs st' = dirs st \<and> temp_dir st' = temp_dir st \<and>
     (\<exists>es. events st' = events st @ es \<and> reported es = [] \<and> style_saves es = [] \<and>
           def_writes es = []) \<and>
     (archive st' = archive st \<or>
      (\<exists>xs. archive st' = Some xs \<and>
            set xs \<subseteq> {''project.qgz'', ''metadata.json''} \<union> basename ` set lf)) \<and>
     (metadata_json st' = metadata_json st \<or> metadata_json st' = Some (manifest_of self h n)) \<and>
     (case r of
        Inl e \<Rightarrow> zip_open_raises h \<or> \<not> isfile pb st \<or> (\<exists>p \<in> set lf. \<not> isfile p st)
      | Inr u \<Rightarrow> \<not> zip_open_raises h \<and> isfile pb st \<and> (\<forall>p \<in> set lf. isfile p st) \<and>
          archive st' = Some (''project.qgz'' # map basename lf @ [''metadata.json'']) \<and>
          metadata_json st' = Some (manifest_of self h n))"
proof (cases "zip_open_raises h")
  case True
  with assms have "st' = st" "r = Inl (OSError (output_path self))"
    by (simp_all add: package_def)
  with True show ?thesis by (auto intro: exI [of _ "[]"] simp: empty_proj)
next
  case False
  define st1 where "st1 = emit (file_io (ZipOpen (output_path self))) (st\<lparr>archive := Some []\<rparr>)"
  have s1: "files st1 = files st" "dirs st1 = dirs st" "temp_dir st1 = temp_dir st"
    "metadata_json st1 = metadata_json st" "archive st1 = Some []"
    "events st1 = events st @ [file_io (ZipOpen (output_path self))]"
    by (simp_all add: st1_def emit_def)
  have same1: "\<And>q. isfile q st1 = isfile q st" using s1 by (simp add: isfile_def)
  obtain st2 r2 where z2: "zip_write pb ''project.qgz'' st1 = (st2, r2)"
    by (cases "zip_write pb ''project.qgz'' st1")
  note e2 = zip_write_effect [OF z2]
  show ?thesis
  proof (cases r2)
    case (Inl e)
    with assms False z2 have "st' = st2" "r = Inl e"
      by (simp_all add: package_def Let_def st1_def)
    with e2 Inl s1 same1 show ?thesis
      by (auto intro!: exI [of _ "[file_io (ZipOpen (output_path self))]"] simp: zip_event_proj)
  next
    case (Inr u)
    then have a2: "archive st2 = Some [''project.qgz'']" "isfile pb st"
      using e2 s1 same1 by simp_all
    obtain st3 r3 where z3: "zip_write_all lf st2 = (st3, r3)" by (cases "zip_write_all lf st2")
    from zip_write_all_effect [OF z3] obtain xs where
      f3: "files st3 = files st2" "dirs st3 = dirs st2" "events st3 = events st2"
         "temp_dir st3 = temp_dir st2" "metadata_json st3 = metadata_json st2"
      and xs: "set xs \<subseteq> basename ` set lf" "archive st3 = map_option (\<lambda>es. es @ xs) (archive st2)"
      and c3: "case r3 of Inl e \<Rightarrow> (\<exists>p \<in> set lf. \<not> isfile p st2)
            | Inr u \<Rightarrow> (\<forall>p \<in> set lf. isfile p st2) \<and>
               archive st3 = map_option (\<lambda>es. es @ map basename lf) (archive st2)"
      by blast
    have same2: "\<And>q. isfile q st2 = isfile q st" using e2 same1 by (simp add: isfile_def)
    show ?thesis
    proof (cases r3)
      case (Inl e)
      with assms False z2 Inr z3 have res: "st' = st3" "r = Inl e"
        by (simp_all add: package_def Let_def st1_def)
      have "archive st3 = Some (''project.qgz'' # xs)" using xs(2) a2(1) by simp
      moreover have "set (''project.qgz'' # xs) \<subseteq> {''project.qgz'', ''metadata.json''} \<union> basename ` set lf"
        using xs(1) by auto
      ultimately have ar: "\<exists>xs. archive st3 = Some xs \<and>
            set xs \<subseteq> {''project.qgz'', ''metadata.json''} \<union> basename ` set lf" by blast
      have ev: "events st3 = events st @ [file_io (ZipOpen (output_path self))]"
        using f3 e2 s1 by simp
      have "\<exists>p \<in> set lf. \<not> isfile p st" using c3 Inl same2 by simp
      with res ar ev f3 e2 s1 show ?thesis
        by (auto intro!: exI [of _ "[file_io (ZipOpen (output_path self))]"] simp: zip_event_proj)
    next
      case r3: (Inr u3)
      define mf where "mf = join t ''metadata.json''"
      define st4 where "st4 = emit (file_io (JsonDump mf))
                                  ((add_file mf st3)\<lparr>metadata_json := Some (manifest_of self h n)\<rparr>)"
      have s4: "dirs st4 = dirs st3" "temp_dir st4 = temp_dir st3" "archive st4 = archive st3"
        "metadata_json st4 = Some (manifest_of self h n)" "isfile mf st4"
        "events st4 = events st3 @ [file_io (JsonDump mf)]"
        by (auto simp: st4_def emit_def add_file_def isfile_def)
      from assms False z2 Inr z3 r3 have z4: "zip_write mf ''metadata.json'' st4 = (st', r)"
        by (simp add: package_def Let_def st1_def st4_def mf_def manifest_of_def)
      note e4 = zip_write_effect [OF z4]
      from e4 s4(5) have rr: "r = Inr ()" by (cases r) auto
      have a3: "archive st3 = Some (''project.qgz'' # map basename lf)" "\<forall>p \<in> set lf. isfile p st"
        using c3 r3 a2 same2 by simp_all
      have ar: "archive st' = Some (''project.qgz'' # map basename lf @ [''metadata.json''])"
        using e4 rr s4 a3 by simp
      have ev: "events st' = events st @ [file_io (ZipOpen (output_path self)), file_io (JsonDump mf)]"
        using e4 s4 f3 e2 s1 by simp
      have sub: "set (''project.qgz'' # map basename lf @ [''metadata.json'']) \<subseteq> {''project.qgz'', ''metadata.json''} \<union> basename ` set lf"
        by auto
      show ?thesis using rr ar ev sub e4 s4 f3 e2 s1 a2 a3 False
        by (auto intro!: exI [of _ "[file_io (ZipOpen (output_path self)), file_io (JsonDump mf)]"]
             simp: zip_event_proj)
    qed
  qed
qed

subsection \<open>What the layer loop records\<close>

lemma layer_entries_cases:
  "p \<in> set (layer_entries self h t l st) \<longleftrightarrow>
     data_bearing l \<and>
     (p = style_path t l \<or> (include_data self \<and> isfile (source l) st \<and> p = data_path t l) \<or>
      (\<not> no_definition h l \<and> p = def_path t l))"
  by (auto simp: layer_entries_def no_definition_def)

lemma export_layers_recorded:
  "export_layers self h t n i ls lf st = (st', Inr lf') \<Longrightarrow>
   set lf \<subseteq> set lf' \<and>
   (\<forall>l \<in> set ls. data_bearing l \<longrightarrow>
      style_path t l \<in> set lf' \<and>
      (include_data self \<and> isfile (source l) st \<longrightarrow> data_path t l \<in> set lf') \<and>
      (\<not> no_definition h l \<longrightarrow> def_path t l \<in> set lf')) \<and>
   (\<forall>p \<in> set lf'. p \<in> set lf \<or>
      (\<exists>l \<in> set ls. data_bearing l \<and>
         (p = style_path t l \<or> (include_data self \<and> p = data_path t l) \<or>
          (\<not> no_definition h l \<and> p = def_path t l))))"
proof (induction ls arbitrary: i lf st)
  case Nil
  then show ?case by simp
next
  case (Cons l ls)
  from Cons.prems have n: "n \<noteq> 0" by (auto split: if_splits)
  define st1 where "st1 = emit (progress_updated (progress_value i n)) st"
  obtain st2 r2 where el: "export_layer self h t l lf st1 = (st2, r2)"
    by (cases "export_layer self h t l lf st1")
  from Cons.prems n el obtain lf2 where r2: "r2 = Inr lf2"
    and rec: "export_layers self h t n (Suc i) ls lf2 st2 = (st', Inr lf')"
    by (cases r2) (auto simp: st1_def Let_def)
  from export_layer_effect [OF el] r2 have k: "kept st1 st2"
    and lf2: "lf2 = lf @ layer_entries self h t l st1" by auto
  have same: "\<And>q. isfile q st1 = isfile q st" by (simp add: st1_def isfile_emit)
  have mono: "\<And>q. isfile q st \<Longrightarrow> isfile q st2" using k same kept_isfile by blast
  have le: "\<And>p. p \<in> set (layer_entries self h t l st1) \<longleftrightarrow>
     data_bearing l \<and>
     (p = style_path t l \<or> (include_data self \<and> isfile (source l) st \<and> p = data_path t l) \<or>
      (\<not> no_definition h l \<and> p = def_path t l))"
    by (simp add: layer_entries_cases same)
  note ih = Cons.IH [OF rec]
  have sub: "set lf2 \<subseteq> set lf'" using ih by blast
  have a: "set lf \<subseteq> set lf'" using sub lf2 by auto
  have b: "\<forall>l' \<in> set (l # ls). data_bearing l' \<longrightarrow>
      style_path t l' \<in> set lf' \<and>
      (include_data self \<and> isfile (source l') st \<longrightarrow> data_path t l' \<in> set lf') \<and>
      (\<not> no_definition h l' \<longrightarrow> def_path t l' \<in> set lf')"
  proof
    fix l' assume "l' \<in> set (l # ls)"
    then consider "l' = l" | "l' \<in> set ls" by auto
    then show "data_bearing l' \<longrightarrow>
      style_path t l' \<in> set lf' \<and>
      (include_data self \<and> isfile (source l') st \<longrightarrow> data_path t l' \<in> set lf') \<and>
      (\<not> no_definition h l' \<longrightarrow> def_path t l' \<in> set lf')"
    proof cases
      case 1
      then show ?thesis using sub lf2 le by auto
    next
      case 2
      then show ?thesis using ih mono by blast
    qed
  qed
  have c: "\<forall>p \<in> set lf'. p \<in> set lf \<or>
      (\<exists>l' \<in> set (l # ls). data_bearing l' \<and>
         (p = style_path t l' \<or> (include_data self \<and> p = data_path t l') \<or>
          (\<not> no_definition h l' \<and> p = def_path t l')))"
  proof
    fix p assume "p \<in> set lf'"
    with ih have "p \<in> set lf2 \<or>
      (\<exists>l' \<in> set ls. data_bearing l' \<and>
         (p = style_path t l' \<or> (include_data self \<and> p = data_path t l') \<or>
          (\<not> no_definition h l' \<and> p = def_path t l')))" by blast
    then show "p \<in> set lf \<or>
      (\<exists>l' \<in> set (l # ls). data_bearing l' \<and>
         (p = style_path t l' \<or> (include_data self \<and> p = data_path t l') \<or>
          (\<not> no_definition h l' \<and> p = def_path t l')))"
      using lf2 le by auto
  qed
  from a b c show ?case by blast
qed

lemma export_layer_no_data:
  assumes "\<not> include_data self" "data_bearing l \<longrightarrow> style_ok l" "\<forall>p \<in> set lf. isfile p st"
  shows "\<exists>st' lf'. export_layer self h t l lf st = (st', Inr lf') \<and> (\<forall>p \<in> set lf'. isfile p st')"
  using assms
  by (auto simp: export_layer_def Let_def copy_data_off save_style_def write_definition_def
        data_bearing_def isfile_emit isfile_add_file)

lemma export_layers_no_data:
  assumes "\<not> include_data self"
  shows "length ls \<le> n \<Longrightarrow> \<forall>l \<in> set ls. data_bearing l \<longrightarrow> style_ok l \<Longrightarrow>
     \<forall>p \<in> set lf. isfile p st \<Longrightarrow>
     \<exists>st' lf'. export_layers self h t n i ls lf st = (st', Inr lf') \<and> (\<forall>p \<in> set lf'. isfile p st')"
proof (induction ls arbitrary: i lf st)
  case Nil
  then show ?case by simp
next
  case (Cons l ls)
  then have n: "n \<noteq> 0" by auto
  define st1 where "st1 = emit (progress_updated (progress_value i n)) st"
  have "\<forall>p \<in> set lf. isfile p st1" using Cons.prems by (simp add: st1_def isfile_emit)
  with export_layer_no_data [OF assms, of l lf st1 h t] Cons.prems
  obtain st2 lf2 where el: "export_layer self h t l lf st1 = (st2, Inr lf2)"
    and f2: "\<forall>p \<in> set lf2. isfile p st2" by auto
  from Cons.prems have "length ls \<le> n" "\<forall>l \<in> set ls. data_bearing l \<longrightarrow> style_ok l" by auto
  from Cons.IH [OF this f2, of "Suc i"] obtain st' lf' where
    "export_layers self h t n (Suc i) ls lf2 st2 = (st', Inr lf')" "\<forall>p \<in> set lf'. isfile p st'"
    by blast
  with n el show ?case by (simp add: st1_def Let_def)
qed

lemma start_effect:
  "start h st0 = (st1, r) \<Longrightarrow>
   files st1 = files st0 \<and> archive st1 = archive st0 \<and> metadata_json st1 = metadata_json st0 \<and>
   (if mkdtemp_raises h
    then r = Inl (OSError (gettempdir h)) \<and> dirs st1 = dirs st0 \<and> temp_dir st1 = temp_dir st0 \<and>
         events st1 = events st0 @ [status_updated ''Starting project clone...'']
    else r = Inr (mkdtemp_path h) \<and> dirs st1 = dirs st0 @ [mkdtemp_path h] \<and>
         temp_dir st1 = Some (mkdtemp_path h) \<and>
         events st1 = events st0 @ [status_updated ''Starting project clone...'',
                                    file_io (Mkdtemp (mkdtemp_path h))])"
  by (auto simp: start_def Let_def emit_def mkdtemp_path_def split: if_splits)

lemma backup_effect:
  "kept st (backup h t st) \<and>
   events (backup h t st) = events st @ status_updated ''Backing up project file...'' #
      (if write_ok h then [file_io (ProjectWrite (join t ''project.qgz''))] else []) @
      [progress_updated 10] \<and>
   (write_ok h \<longrightarrow> isfile (join t ''project.qgz'') (backup h t st))"
  by (auto simp: backup_def Let_def emit_def add_file_def kept_def isfile_def)

subsection \<open>The \<open>try\<close> block as a whole\<close>

lemma run_try_mkdtemp_raises:
  "mkdtemp_raises h \<Longrightarrow>
   run_try self h st0 =
     (emit (status_updated ''Starting project clone...'') st0, Some (OSError (gettempdir h)))"
  by (simp add: run_try_def start_def)

lemma run_try_no_project:
  assumes "\<not> mkdtemp_raises h" "fileName h = []"
  shows "\<exists>st'. run_try self h st0 = (st', None) \<and>
     events st' = events st0 @ [status_updated ''Starting project clone...'',
        file_io (Mkdtemp (mkdtemp_path h)),
        finished_signal False ''No project file is currently open.''] \<and>
     files st' = files st0 \<and> dirs st' = dirs st0 @ [mkdtemp_path h] \<and>
     temp_dir st' = Some (mkdtemp_path h) \<and> archive st' = archive st0 \<and>
     metadata_json st' = metadata_json st0"
  using assms by (simp add: run_try_def start_def Let_def emit_def mkdtemp_path_def)

lemma run_try_loaded:
  assumes "\<not> mkdtemp_raises h" "fileName h \<noteq> []" and rt: "run_try self h st0 = (st', r)"
  obtains (loop) e where
      "export_layers self h (mkdtemp_path h) (length (mapLayers h)) 1 (mapLayers h) []
         (backup h (mkdtemp_path h) (fst (start h st0))) = (st', Inl e)" "r = Some e"
  | (zip) st6 lf e where
      "export_layers self h (mkdtemp_path h) (length (mapLayers h)) 1 (mapLayers h) []
         (backup h (mkdtemp_path h) (fst (start h st0))) = (st6, Inr lf)"
      "package self h (mkdtemp_path h) (join (mkdtemp_path h) ''project.qgz'') lf
         (length (mapLayers h)) (emit (status_updated ''Creating ZIP package...'') st6)
       = (st', Inl e)" "r = Some e"
  | (ok) st6 lf st8 where
      "export_layers self h (mkdtemp_path h) (length (mapLayers h)) 1 (mapLayers h) []
         (backup h (mkdtemp_path h) (fst (start h st0))) = (st6, Inr lf)"
      "package self h (mkdtemp_path h) (join (mkdtemp_path h) ''project.qgz'') lf
         (length (mapLayers h)) (emit (status_updated ''Creating ZIP package...'') st6)
       = (st8, Inr ())" "st' = finish self st8" "r = None"
proof -
  obtain st2 where s: "start h st0 = (st2, Inr (mkdtemp_path h))"
    using assms(1) by (simp add: start_def Let_def mkdtemp_path_def)
  then have f: "fst (start h st0) = st2" by simp
  obtain st6 rl where el: "export_layers self h (mkdtemp_path h) (length (mapLayers h)) 1
      (mapLayers h) [] (backup h (mkdtemp_path h) st2) = (st6, rl)"
    by (cases "export_layers self h (mkdtemp_path h) (length (mapLayers h)) 1
      (mapLayers h) [] (backup h (mkdtemp_path h) st2)")
  show thesis
  proof (cases rl)
    case (Inl e)
    with rt assms(2) s el have "st' = st6" "r = Some e" by (auto simp: run_try_def Let_def)
    with el Inl loop f show thesis by simp
  next
    case (Inr lf)
    obtain st8 rp where pk: "package self h (mkdtemp_path h) (join (mkdtemp_path h) ''project.qgz'')
        lf (length (mapLayers h)) (emit (status_updated ''Creating ZIP package...'') st6) = (st8, rp)"
      by (cases "package self h (mkdtemp_path h) (join (mkdtemp_path h) ''project.qgz'')
        lf (length (mapLayers h)) (emit (status_updated ''Creating ZIP package...'') st6)")
    show thesis
    proof (cases rp)
      case (Inl e)
      with rt assms(2) s el Inr pk have "st' = st8" "r = Some e"
        by (auto simp: run_try_def Let_def)
      with el Inr pk Inl zip f show thesis by simp
    next
      case r: (Inr u)
      with rt assms(2) s el Inr pk have "st' = finish self st8" "r = None"
        by (auto simp: run_try_def Let_def)
      with el Inr pk r ok f show thesis by simp
    qed
  qed
qed


lemma prefix_effect:
  assumes "\<not> mkdtemp_raises h"
    and st5_def: "st5 = backup h (mkdtemp_path h) (fst (start h st0))"
  shows "temp_dir st5 = Some (mkdtemp_path h) \<and> dirs st5 = dirs st0 @ [mkdtemp_path h] \<and>
     archive st5 = archive st0 \<and> metadata_json st5 = metadata_json st0 \<and>
     set (files st0) \<subseteq> set (files st5) \<and>
     (write_ok h \<longrightarrow> isfile (join (mkdtemp_path h) ''project.qgz'') st5) \<and>
     (\<exists>es. events st5 = events st0 @ es \<and> reported es = [progress_updated 10] \<and>
           style_saves es = [] \<and> def_writes es = [])"
proof -
  obtain st2 where s: "start h st0 = (st2, Inr (mkdtemp_path h))"
    using assms(1) by (simp add: start_def Let_def mkdtemp_path_def)
  from start_effect [OF s] assms(1) have e2:
    "files st2 = files st0" "archive st2 = archive st0" "metadata_json st2 = metadata_json st0"
    "dirs st2 = dirs st0 @ [mkdtemp_path h]" "temp_dir st2 = Some (mkdtemp_path h)"
    "events st2 = events st0 @ [status_updated ''Starting project clone...'',
                                    file_io (Mkdtemp (mkdtemp_path h))]"
    by simp_all
  have st5: "st5 = backup h (mkdtemp_path h) st2" by (simp add: st5_def s)
  note b = backup_effect [of st2 h "mkdtemp_path h"]
  define es where "es = [status_updated ''Starting project clone...'',
       file_io (Mkdtemp (mkdtemp_path h)), status_updated ''Backing up project file...''] @
      (if write_ok h then [file_io (ProjectWrite (join (mkdtemp_path h) ''project.qgz''))] else []) @
      [progress_updated 10]"
  have ev: "events st5 = events st0 @ es" using b e2 by (simp add: st5 es_def)
  have pr: "reported es = [progress_updated 10]" "style_saves es = []" "def_writes es = []"
    by (simp_all add: es_def reported_def style_saves_def def_writes_def)
  from b e2 ev pr show ?thesis unfolding st5 by (auto simp: kept_def)
qed

lemma finish_effect:
  "dirs (finish self st) = dirs st \<and> temp_dir (finish self st) = temp_dir st \<and>
   archive (finish self st) = archive st \<and> metadata_json (finish self st) = metadata_json st \<and>
   files (finish self st) = files st \<and>
   events (finish self st) = events st @
     [progress_updated 100, status_updated ''Clone completed successfully!'',
      finished_signal True (''Project cloned successfully to: '' @ output_path self)]"
  by (simp add: finish_def emit_def)

lemma finish_proj:
  "reported [progress_updated a, status_updated b, finished_signal c d]
     = [progress_updated a, finished_signal c d]"
  "def_writes [progress_updated a, status_updated b, finished_signal c d] = []"
  "style_saves [progress_updated a, status_updated b, finished_signal c d] = []"
  by (simp_all add: reported_def def_writes_def style_saves_def)

lemma status_proj:
  "reported [status_updated b] = []" "def_writes [status_updated b] = []"
  "style_saves [status_updated b] = []"
  by (simp_all add: reported_def def_writes_def style_saves_def)

lemma run_try_summary:
  assumes m: "\<not> mkdtemp_raises h" and p: "fileName h \<noteq> []"
    and rt: "run_try self h st0 = (st', r)"
    and t: "t = mkdtemp_path h" and n: "n = length (mapLayers h)"
  shows "temp_dir st' = Some t \<and> dirs st' = dirs st0 @ [t] \<and>
    (\<exists>es k lf. events st' = events st0 @ es \<and> k \<le> n \<and>
       reported es = progress_updated 10 #
          map (\<lambda>j. progress_updated (progress_value j n)) [1..<1 + k] @
          (if r = None
           then [progress_updated 100,
                 finished_signal True (''Project cloned successfully to: '' @ output_path self)]
           else []) \<and>
       (list_all (no_definition h) (mapLayers h) \<longrightarrow> def_writes es = []) \<and>
       (metadata_json st' = metadata_json st0 \<or>
        metadata_json st' = Some (manifest_of self h n)) \<and>
       (archive st' = archive st0 \<or>
        (\<exists>xs. archive st' = Some xs \<and>
              set xs \<subseteq> {''project.qgz'', ''metadata.json''} \<union> basename ` set lf)) \<and>
       recorded_ok self h t lf \<and>
       (r = None \<longrightarrow> k = n \<and>
          style_saves es =
            map (style_path t) (filter (\<lambda>l. data_bearing l \<and> style_ok l) (mapLayers h)) \<and>
          archive st' = Some (''project.qgz'' # map basename lf @ [''metadata.json'']) \<and>
          metadata_json st' = Some (manifest_of self h n) \<and>
          recorded_all self h t st0 lf))"
proof -
  define st5 where "st5 = backup h (mkdtemp_path h) (fst (start h st0))"
  from prefix_effect [OF m st5_def] obtain es0 where
    p5: "temp_dir st5 = Some t" "dirs st5 = dirs st0 @ [t]" "archive st5 = archive st0"
      "metadata_json st5 = metadata_json st0" "set (files st0) \<subseteq> set (files st5)"
    and e5: "events st5 = events st0 @ es0" "reported es0 = [progress_updated 10]"
      "style_saves es0 = []" "def_writes es0 = []"
    unfolding t by blast
  let ?pv = "\<lambda>j. progress_updated (progress_value j n)"
  let ?L = "mapLayers h"
  from m p rt show ?thesis
  proof (cases rule: run_try_loaded)
    case (loop e)
    from export_layers_events [OF loop(1) [folded st5_def t n]] obtain esL k where
      k: "kept st5 st'" and eL: "events st' = events st5 @ esL" "k \<le> length ?L"
      "reported esL = map ?pv [1..<1 + k]"
      "list_all (no_definition h) ?L \<longrightarrow> def_writes esL = []"
      by auto
    have ev: "events st' = events st0 @ (es0 @ esL)" using e5 eL by simp
    have rep: "reported (es0 @ esL) = progress_updated 10 # map ?pv [1..<1 + k]"
      by (simp add: reported_append e5 eL)
    have dw: "list_all (no_definition h) ?L \<longrightarrow> def_writes (es0 @ esL) = []"
      using eL e5 by (simp add: def_writes_append)
    have ro: "recorded_ok self h t []" by (simp add: recorded_ok_def)
    from k p5 have fr: "temp_dir st' = Some t" "dirs st' = dirs st0 @ [t]"
      "archive st' = archive st0" "metadata_json st' = metadata_json st0"
      by (simp_all add: kept_def)
    show ?thesis using fr ev rep dw ro eL(2) loop(2) n
      by (intro conjI exI [of _ "es0 @ esL"] exI [of _ k] exI [of _ "[]"]) simp_all
  next
    case (zip st6 lf e)
    from export_layers_events [OF zip(1) [folded st5_def t n]] obtain esL k where
      k: "kept st5 st6" and eL: "events st6 = events st5 @ esL" "k = length ?L"
      "reported esL = map ?pv [1..<1 + k]"
      "list_all (no_definition h) ?L \<longrightarrow> def_writes esL = []"
      by auto
    from export_layers_recorded [OF zip(1) [folded st5_def t n]]
    have ro: "recorded_ok self h t lf" by (simp add: recorded_ok_def)
    define st7 where "st7 = emit (status_updated ''Creating ZIP package...'') st6"
    have s7: "dirs st7 = dirs st6" "temp_dir st7 = temp_dir st6" "archive st7 = archive st6"
      "metadata_json st7 = metadata_json st6"
      "events st7 = events st6 @ [status_updated ''Creating ZIP package...'']"
      by (simp_all add: st7_def emit_def)
    from package_effect [OF zip(2) [folded st7_def t n]] obtain esP where
      pe: "dirs st' = dirs st7" "temp_dir st' = temp_dir st7" "events st' = events st7 @ esP"
        "reported esP = []" "def_writes esP = []"
        "archive st' = archive st7 \<or>
           (\<exists>xs. archive st' = Some xs \<and>
            set xs \<subseteq> {''project.qgz'', ''metadata.json''} \<union> basename ` set lf)"
        "metadata_json st' = metadata_json st7 \<or> metadata_json st' = Some (manifest_of self h n)"
      by blast
    define es where "es = es0 @ esL @ [status_updated ''Creating ZIP package...''] @ esP"
    have ev: "events st' = events st0 @ es" using e5 eL s7 pe by (simp add: es_def)
    note st = status_proj
    have rep: "reported es = progress_updated 10 # map ?pv [1..<1 + k]"
      unfolding es_def reported_append by (simp add: e5 eL pe st)
    have dw: "list_all (no_definition h) ?L \<longrightarrow> def_writes es = []"
      unfolding es_def def_writes_append using eL e5 pe st by simp
    from k p5 s7 pe have fr: "temp_dir st' = Some t" "dirs st' = dirs st0 @ [t]"
      "archive st' = archive st0 \<or>
           (\<exists>xs. archive st' = Some xs \<and>
            set xs \<subseteq> {''project.qgz'', ''metadata.json''} \<union> basename ` set lf)"
      "metadata_json st' = metadata_json st0 \<or> metadata_json st' = Some (manifest_of self h n)"
      by (simp_all add: kept_def)
    show ?thesis using fr ev rep dw ro eL(2) zip(3) n
      by (intro conjI exI [of _ es] exI [of _ k] exI [of _ lf]) simp_all
  next
    case (ok st6 lf st8)
    from export_layers_events [OF ok(1) [folded st5_def t n]] obtain esL k where
      k: "kept st5 st6" and eL: "events st6 = events st5 @ esL" "k = length ?L"
      "reported esL = map ?pv [1..<1 + k]"
      "style_saves esL = map (style_path t) (filter (\<lambda>l. data_bearing l \<and> style_ok l) ?L)"
      "list_all (no_definition h) ?L \<longrightarrow> def_writes esL = []"
      by auto
    note rec = export_layers_recorded [OF ok(1) [folded st5_def t n]]
    have ro: "recorded_ok self h t lf" using rec by (simp add: recorded_ok_def)
    have mono: "\<And>q. isfile q st0 \<Longrightarrow> isfile q st5" using p5(5) by (auto simp: isfile_def)
    have ra: "recorded_all self h t st0 lf" using rec mono unfolding recorded_all_def by blast
    define st7 where "st7 = emit (status_updated ''Creating ZIP package...'') st6"
    have s7: "dirs st7 = dirs st6" "temp_dir st7 = temp_dir st6" "archive st7 = archive st6"
      "metadata_json st7 = metadata_json st6"
      "events st7 = events st6 @ [status_updated ''Creating ZIP package...'']"
      by (simp_all add: st7_def emit_def)
    from package_effect [OF ok(2) [folded st7_def t n]] obtain esP where
      pe: "dirs st8 = dirs st7" "temp_dir st8 = temp_dir st7" "events st8 = events st7 @ esP"
        "reported esP = []" "style_saves esP = []" "def_writes esP = []"
        "archive st8 = Some (''project.qgz'' # map basename lf @ [''metadata.json''])"
        "metadata_json st8 = Some (manifest_of self h n)"
      by auto
    note fin = finish_effect [of self st8]
    define es where "es = es0 @ esL @ [status_updated ''Creating ZIP package...''] @ esP @
       [progress_updated 100, status_updated ''Clone completed successfully!'',
        finished_signal True (''Project cloned successfully to: '' @ output_path self)]"
    have ev: "events st' = events st0 @ es" using e5 eL s7 pe fin ok(3) by (simp add: es_def)
    note st = status_proj
    note fi = finish_proj
    have rep: "reported es = progress_updated 10 # map ?pv [1..<1 + k] @
        [progress_updated 100,
           finished_signal True (''Project cloned successfully to: '' @ output_path self)]"
      unfolding es_def reported_append by (simp add: e5 eL pe st fi)
    have dw: "list_all (no_definition h) ?L \<longrightarrow> def_writes es = []"
      unfolding es_def def_writes_append using eL e5 pe st fi by simp
    have sty: "style_saves es = map (style_path t) (filter (\<lambda>l. data_bearing l \<and> style_ok l) ?L)"
      unfolding es_def style_saves_append using eL e5 pe st fi by simp
    from k p5 s7 pe fin ok(3) have fr: "temp_dir st' = Some t" "dirs st' = dirs st0 @ [t]"
      "archive st' = Some (''project.qgz'' # map basename lf @ [''metadata.json''])"
      "metadata_json st' = Some (manifest_of self h n)"
      by (simp_all add: kept_def)
    have sub: "set (''project.qgz'' # map basename lf @ [''metadata.json''])
        \<subseteq> {''project.qgz'', ''metadata.json''} \<union> basename ` set lf" by auto
    show ?thesis using fr ev rep dw ro ra sty sub eL(2) ok(4) n
      by (intro conjI exI [of _ es] exI [of _ k] exI [of _ lf]) simp_all
  qed
qed

subsection \<open>Cleanup\<close>

lemma handle_effect:
  "files (handle (st, r)) = files st \<and> dirs (handle (st, r)) = dirs st \<and>
   temp_dir (handle (st, r)) = temp_dir st \<and> archive (handle (st, r)) = archive st \<and>
   metadata_json (handle (st, r)) = metadata_json st \<and>
   events (handle (st, r)) = events st @
     (case r of None \<Rightarrow> []
      | Some e \<Rightarrow> [logMessage (str_exn e),
                    finished_signal False (''Error during cloning: '' @ str_exn e)])"
  by (cases r) (simp_all add: handle_def emit_def)

lemma cleanup_effect:
  "archive (cleanup st) = archive st \<and> metadata_json (cleanup st) = metadata_json st \<and>
   temp_dir (cleanup st) = temp_dir st \<and>
   (\<exists>es. events (cleanup st) = events st @ es \<and> reported es = [] \<and> style_saves es = [] \<and>
         def_writes es = [] \<and> logMessage m \<notin> set es)"
proof (cases "\<exists>t. temp_dir st = Some t \<and> t \<noteq> [] \<and> path_exists t st")
  case True
  then obtain t where "temp_dir st = Some t" "t \<noteq> []" "path_exists t st" by blast
  then have "cleanup st = rmtree t st" by (simp add: cleanup_def)
  then show ?thesis
    by (auto simp: rmtree_def emit_def reported_def style_saves_def def_writes_def
          intro!: exI [of _ "[file_io (Rmtree t)]"])
next
  case False
  then have "cleanup st = st" by (auto simp: cleanup_def split: option.splits)
  then show ?thesis by (auto simp: empty_proj intro!: exI [of _ "[]"])
qed

lemma cleanup_removes:
  assumes "temp_dir st = Some t" "t \<noteq> []" "isdir t st"
  shows "cleanup st = rmtree t st"
  using assms by (simp add: cleanup_def path_exists_def)

lemma rmtree_gone:
  "\<not> path_exists t (rmtree t st) \<and>
   (\<forall>p \<in> set (files (rmtree t st) @ dirs (rmtree t st)). \<not> inside t p) \<and>
   last (events (rmtree t st)) = file_io (Rmtree t)"
  by (auto simp: rmtree_def emit_def path_exists_def isfile_def isdir_def)

lemma mkdtemp_path_nonempty: "mkdtemp_path h \<noteq> []"
  by (simp add: mkdtemp_path_def join_nonempty)

lemma run_try_frame:
  assumes "\<not> mkdtemp_raises h" "run_try self h st0 = (st', r)"
  shows "temp_dir st' = Some (mkdtemp_path h) \<and> dirs st' = dirs st0 @ [mkdtemp_path h]"
proof (cases "fileName h = []")
  case True
  from run_try_no_project [OF assms(1) True, of self st0] assms(2) show ?thesis by auto
next
  case False
  from run_try_summary [OF assms(1) False assms(2) refl refl] show ?thesis by blast
qed

text \<open>
  C4. Whenever the run creates a working area, that directory and everything below it
  are gone when the run returns, whatever the outcome: the removal in the \<open>finally\<close>
  clause is the last effect of the run.
\<close>

theorem working_area_removed:
  assumes "\<not> mkdtemp_raises h"
  shows "\<not> path_exists (mkdtemp_path h) (run self h (init_state fs ds)) \<and>
     (\<forall>p \<in> set (files (run self h (init_state fs ds)) @ dirs (run self h (init_state fs ds))).
        \<not> inside (mkdtemp_path h) p) \<and>
     last (events (run self h (init_state fs ds))) = file_io (Rmtree (mkdtemp_path h))"
proof -
  obtain st' r where rt: "run_try self h (init_state fs ds) = (st', r)"
    by (cases "run_try self h (init_state fs ds)")
  from run_try_frame [OF assms rt]
  have f: "temp_dir st' = Some (mkdtemp_path h)" "mkdtemp_path h \<in> set (dirs st')" by simp_all
  define st2 where "st2 = handle (st', r)"
  have "temp_dir st2 = Some (mkdtemp_path h)" "isdir (mkdtemp_path h) st2"
    using f handle_effect [of st' r] by (simp_all add: st2_def isdir_def)
  then have "cleanup st2 = rmtree (mkdtemp_path h) st2"
    using mkdtemp_path_nonempty by (intro cleanup_removes) simp_all
  then have "run self h (init_state fs ds) = rmtree (mkdtemp_path h) st2"
    by (simp add: run_def rt st2_def)
  then show ?thesis using rmtree_gone [of "mkdtemp_path h" st2] by simp
qed


lemma outcomes_of_reported: "outcomes_of (reported es) = outcomes_of es"
  by (induction es) (auto simp: outcomes_of_def reported_def split: event.splits)

lemma progress_of_reported: "progress_of (reported es) = progress_of es"
  by (induction es) (auto simp: progress_of_def reported_def split: event.splits)

lemma outcomes_of_simps:
  "outcomes_of [] = []"
  "outcomes_of (progress_updated v # es) = outcomes_of es"
  "outcomes_of (finished_signal b m # es) = (b, m) # outcomes_of es"
  "outcomes_of (a @ c) = outcomes_of a @ outcomes_of c"
  "outcomes_of (map (\<lambda>j. progress_updated (f j)) xs) = []"
  by (induction xs) (simp_all add: outcomes_of_def)

lemma progress_of_simps:
  "progress_of [] = []"
  "progress_of (progress_updated v # es) = v # progress_of es"
  "progress_of (finished_signal b m # es) = progress_of es"
  "progress_of (a @ c) = progress_of a @ progress_of c"
  "progress_of (map (\<lambda>j. progress_updated (f j)) xs) = map f xs"
  by (induction xs) (simp_all add: progress_of_def)

lemma run_reported:
  assumes "run_try self h st0 = (st', r)"
  shows "reported (events (run self h st0)) = reported (events st') @
       (case r of None \<Rightarrow> []
        | Some e \<Rightarrow> [finished_signal False (''Error during cloning: '' @ str_exn e)])"
    and "archive (run self h st0) = archive st'"
    and "metadata_json (run self h st0) = metadata_json st'"
    and "r = Some e \<Longrightarrow> logMessage (str_exn e) \<in> set (events (run self h st0))"
proof -
  define st2 where "st2 = handle (st', r)"
  have r: "run self h st0 = cleanup st2" by (simp add: run_def assms st2_def)
  note h = handle_effect [of st' r, folded st2_def]
  from cleanup_effect [of st2] obtain es where
    c: "archive (cleanup st2) = archive st2" "metadata_json (cleanup st2) = metadata_json st2"
       "events (cleanup st2) = events st2 @ es" "reported es = []"
    by blast
  show "reported (events (run self h st0)) = reported (events st') @
       (case r of None \<Rightarrow> []
        | Some e \<Rightarrow> [finished_signal False (''Error during cloning: '' @ str_exn e)])"
    unfolding r using c h by (cases r) (simp_all add: reported_append, simp_all add: reported_def)
  show "archive (run self h st0) = archive st'" unfolding r using c h by simp
  show "metadata_json (run self h st0) = metadata_json st'" unfolding r using c h by simp
  show "r = Some e \<Longrightarrow> logMessage (str_exn e) \<in> set (events (run self h st0))"
    unfolding r using c h by simp
qed

lemma init_events: "events (init_state fs ds) = []" "archive (init_state fs ds) = None"
  "metadata_json (init_state fs ds) = None" "files (init_state fs ds) = fs"
  "dirs (init_state fs ds) = ds" "temp_dir (init_state fs ds) = None"
  by (simp_all add: init_state_def)

text \<open>the progress and outcome signals of a whole run\<close>

lemma run_signals:
  assumes st_def: "st = run self h (init_state fs ds)"
    and r_def: "r = snd (run_try self h (init_state fs ds))"
    and n_def: "n = length (mapLayers h)"
  shows "\<exists>k \<le> n. reported (events st) =
     (if mkdtemp_raises h \<or> fileName h = [] then []
      else progress_updated 10 # map (\<lambda>j. progress_updated (progress_value j n)) [1..<1 + k] @
           (if r = None then [progress_updated 100] else [])) @
     [case r of
        None \<Rightarrow> if fileName h = []
                then finished_signal False ''No project file is currently open.''
                else finished_signal True (''Project cloned successfully to: '' @ output_path self)
      | Some e \<Rightarrow> finished_signal False (''Error during cloning: '' @ str_exn e)] \<and>
     (r = None \<and> fileName h \<noteq> [] \<longrightarrow> k = n) \<and> (mkdtemp_raises h \<longrightarrow> r \<noteq> None)"
proof -
  obtain st' where rt: "run_try self h (init_state fs ds) = (st', r)"
    unfolding r_def by (cases "run_try self h (init_state fs ds)") simp
  note rr = run_reported(1) [OF rt, folded st_def]
  show ?thesis
  proof (cases "mkdtemp_raises h")
    case True
    from run_try_mkdtemp_raises [OF True, of self "init_state fs ds"] rt
    have "r = Some (OSError (gettempdir h))"
      "events st' = [status_updated ''Starting project clone...'']"
      by (simp_all add: emit_def init_events)
    with rr True show ?thesis by (intro exI [of _ 0]) (simp add: status_proj)
  next
    case m: False
    show ?thesis
    proof (cases "fileName h = []")
      case True
      from run_try_no_project [OF m True, of self "init_state fs ds"] rt
      have "r = None" "events st' = [status_updated ''Starting project clone...'',
        file_io (Mkdtemp (mkdtemp_path h)),
        finished_signal False ''No project file is currently open.'']"
        by (simp_all add: init_events)
      with rr True m show ?thesis by (intro exI [of _ 0]) (simp add: reported_def)
    next
      case False
      from run_try_summary [OF m False rt refl n_def] obtain es k where
        "events st' = es" "k \<le> n"
        "reported es = progress_updated 10 #
          map (\<lambda>j. progress_updated (progress_value j n)) [1..<1 + k] @
          (if r = None
           then [progress_updated 100,
                 finished_signal True (''Project cloned successfully to: '' @ output_path self)]
           else [])" "r = None \<longrightarrow> k = n"
        by (auto simp: init_events)
      with rr False m show ?thesis by (intro exI [of _ k]) (auto split: option.splits)
    qed
  qed
qed

subsection \<open>Signals of a run\<close>





lemma succeeded_iff:
  "succeeded (run self h (init_state fs ds)) \<longleftrightarrow>
     snd (run_try self h (init_state fs ds)) = None \<and> fileName h \<noteq> []"
proof -
  from run_signals [OF refl refl refl, where self=self and h=h and fs=fs and ds=ds] obtain k where
    r: "reported (events (run self h (init_state fs ds))) =
     (if mkdtemp_raises h \<or> fileName h = [] then []
      else progress_updated 10 # map (\<lambda>j. progress_updated (progress_value j (length (mapLayers h)))) [1..<1 + k] @
           (if snd (run_try self h (init_state fs ds)) = None then [progress_updated 100] else [])) @
     [case snd (run_try self h (init_state fs ds)) of
        None \<Rightarrow> if fileName h = []
                then finished_signal False ''No project file is currently open.''
                else finished_signal True (''Project cloned successfully to: '' @ output_path self)
      | Some e \<Rightarrow> finished_signal False (''Error during cloning: '' @ str_exn e)]"
    by blast
  have "outcomes_of (events (run self h (init_state fs ds))) =
     [case snd (run_try self h (init_state fs ds)) of
        None \<Rightarrow> if fileName h = []
                then (False, ''No project file is currently open.'')
                else (True, ''Project cloned successfully to: '' @ output_path self)
      | Some e \<Rightarrow> (False, ''Error during cloning: '' @ str_exn e)]"
    unfolding outcomes_of_reported [symmetric, of "events (run self h (init_state fs ds))"] r
    by (simp add: outcomes_of_simps split: option.splits)
  then show ?thesis by (auto simp: succeeded_def split: option.splits if_splits)
qed



lemma run_try_succeeds:
  assumes m: "\<not> mkdtemp_raises h" and p: "fileName h \<noteq> []" and w: "write_ok h"
    and z: "\<not> zip_open_raises h"
    and el: "export_layers self h (mkdtemp_path h) (length (mapLayers h)) 1 (mapLayers h) []
         (backup h (mkdtemp_path h) (fst (start h st0))) = (st6, Inr lf)"
    and ex: "\<forall>p \<in> set lf. isfile p st6"
  shows "snd (run_try self h st0) = None"
proof -
  obtain st' r where rt: "run_try self h st0 = (st', r)" by (cases "run_try self h st0")
  from prefix_effect [OF m refl, of st0] w
  have pb5: "isfile (join (mkdtemp_path h) ''project.qgz'') (backup h (mkdtemp_path h) (fst (start h st0)))"
    by blast
  from export_layers_events [OF el] have "kept (backup h (mkdtemp_path h) (fst (start h st0))) st6"
    by blast
  with pb5 have pb6: "isfile (join (mkdtemp_path h) ''project.qgz'') st6" by (rule kept_isfile [rotated])
  from m p rt have "r = None"
  proof (cases rule: run_try_loaded)
    case (loop e)
    with el show ?thesis by simp
  next
    case (zip st6' lf' e)
    with el have eq: "st6' = st6" "lf' = lf" by simp_all
    from package_effect [OF zip(2)] z
    have "\<not> isfile (join (mkdtemp_path h) ''project.qgz'') (emit (status_updated ''Creating ZIP package...'') st6')
       \<or> (\<exists>p \<in> set lf'. \<not> isfile p (emit (status_updated ''Creating ZIP package...'') st6'))"
      by auto
    with pb6 ex eq show ?thesis by (simp add: isfile_emit)
  next
    case (ok st6' lf' st8)
    then show ?thesis by simp
  qed
  with rt show ?thesis by simp
qed

subsection \<open>The claims at the concrete project\<close>

theorem working_area_removed_witness:
  "\<not> mkdtemp_raises demo_host \<and>
   \<not> path_exists ''/tmp/tmpk3x9q2ab'' (run demo_thread demo_host demo_state) \<and>
   last (events (run demo_thread demo_host demo_state)) = file_io (Rmtree ''/tmp/tmpk3x9q2ab'')"
proof -
  have h: "\<not> mkdtemp_raises demo_host" by (simp add: demo_host_def)
  have p: "mkdtemp_path demo_host = ''/tmp/tmpk3x9q2ab''"
    by (simp add: mkdtemp_path_def demo_host_def join_def)
  from working_area_removed [OF h, of demo_thread
      "[''/data/roads.shp'', ''/data/roads.dbf'', ''/data/roads.shx'']" "[''/data'', ''/tmp'']"]
  show ?thesis using h by (simp add: p demo_state_def)
qed



lemma run_file_ops:
  assumes "run_try self h st0 = (st', r)"
  shows "style_saves (events (run self h st0)) = style_saves (events st')"
    and "def_writes (events (run self h st0)) = def_writes (events st')"
proof -
  define st2 where "st2 = handle (st', r)"
  have r: "run self h st0 = cleanup st2" by (simp add: run_def assms st2_def)
  note h = handle_effect [of st' r, folded st2_def]
  from cleanup_effect [of st2] obtain es where
    c: "events (cleanup st2) = events st2 @ es" "style_saves es = []" "def_writes es = []"
    by blast
  have hs: "style_saves (events st2) = style_saves (events st')"
    "def_writes (events st2) = def_writes (events st')"
    using h by (cases r; simp add: style_saves_append def_writes_append;
                simp add: style_saves_def def_writes_def)+
  show "style_saves (events (run self h st0)) = style_saves (events st')"
    unfolding r using c hs by (simp add: style_saves_append)
  show "def_writes (events (run self h st0)) = def_writes (events st')"
    unfolding r using c hs by (simp add: def_writes_append)
qed

lemma run_success_facts:
  assumes "succeeded (run self h (init_state fs ds))"
  shows "\<not> mkdtemp_raises h \<and> fileName h \<noteq> [] \<and>
    (\<exists>lf. archive (run self h (init_state fs ds))
             = Some (''project.qgz'' # map basename lf @ [''metadata.json'']) \<and>
          metadata_json (run self h (init_state fs ds))
             = Some (manifest_of self h (length (mapLayers h))) \<and>
          recorded_ok self h (mkdtemp_path h) lf \<and>
          recorded_all self h (mkdtemp_path h) (init_state fs ds) lf \<and>
          style_saves (events (run self h (init_state fs ds)))
             = map (style_path (mkdtemp_path h))
                 (filter (\<lambda>l. data_bearing l \<and> style_ok l) (mapLayers h)))"
proof -
  obtain st' r where rt: "run_try self h (init_state fs ds) = (st', r)"
    by (cases "run_try self h (init_state fs ds)")
  from assms succeeded_iff [of self h fs ds] rt have r: "r = None" and p: "fileName h \<noteq> []"
    by simp_all
  have m: "\<not> mkdtemp_raises h"
    using run_try_mkdtemp_raises [of h self "init_state fs ds"] rt r by auto
  from run_try_summary [OF m p rt refl refl] r obtain es lf where
    f: "events st' = events (init_state fs ds) @ es"
      "style_saves es = map (style_path (mkdtemp_path h))
                 (filter (\<lambda>l. data_bearing l \<and> style_ok l) (mapLayers h))"
      "archive st' = Some (''project.qgz'' # map basename lf @ [''metadata.json''])"
      "metadata_json st' = Some (manifest_of self h (length (mapLayers h)))"
      "recorded_ok self h (mkdtemp_path h) lf"
      "recorded_all self h (mkdtemp_path h) (init_state fs ds) lf"
    by auto
  from f(1) have "events st' = es" by (simp add: init_events)
  with f run_reported(2,3) [OF rt] run_file_ops(1) [OF rt] m p show ?thesis
    by (intro conjI exI [of _ lf]) simp_all
qed

lemma sanitized_no_slash: "CHR ''/'' \<notin> set (sanitize_filename s)"
  using sanitize_filename_allowed not_allowed_slash by blast

lemma basename_paths:
  "basename (style_path t l) = sanitize_filename (name l) @ ''.qml''"
  "basename (def_path t l) = sanitize_filename (name l) @ ''.qlr''"
  "basename (data_path t l) = sanitize_filename (name l) @ snd (splitext (source l))"
  unfolding style_path_def def_path_def data_path_def
  by (rule basename_join, simp add: sanitized_no_slash ext_no_slash)+

text \<open>
  C10. A loaded project without layers is cloned successfully when the working area, the
  snapshot and the archive can be written: the layer loop, and with it the division by
  the layer count, is never entered; progress goes from 10 to 100; the archive holds the
  snapshot and the manifest only, and the manifest counts 0 layers.
\<close>

theorem no_layers_succeeds:
  assumes "mapLayers h = []" "\<not> mkdtemp_raises h" "fileName h \<noteq> []" "write_ok h"
    "\<not> zip_open_raises h"
  shows "snd (run_try self h (init_state fs ds)) = None \<and>
     succeeded (run self h (init_state fs ds)) \<and>
     progress_of (events (run self h (init_state fs ds))) = [10, 100] \<and>
     archive (run self h (init_state fs ds)) = Some [''project.qgz'', ''metadata.json''] \<and>
     (\<exists>md. metadata_json (run self h (init_state fs ds)) = Some md \<and> layer_count md = 0)"
proof -
  let ?st0 = "init_state fs ds"
  have el: "export_layers self h (mkdtemp_path h) (length (mapLayers h)) 1 (mapLayers h) []
         (backup h (mkdtemp_path h) (fst (start h ?st0)))
       = (backup h (mkdtemp_path h) (fst (start h ?st0)), Inr [])"
    using assms(1) by simp
  have r: "snd (run_try self h ?st0) = None"
    by (rule run_try_succeeds [OF assms(2,3,4,5) el]) simp
  then have ok: "succeeded (run self h ?st0)" using assms(3) by (simp add: succeeded_iff)
  from run_success_facts [OF ok] obtain lf where
    a: "archive (run self h ?st0) = Some (''project.qgz'' # map basename lf @ [''metadata.json''])"
    and md: "metadata_json (run self h ?st0) = Some (manifest_of self h (length (mapLayers h)))"
    and ro: "recorded_ok self h (mkdtemp_path h) lf"
    by blast
  from ro assms(1) have "lf = []" by (cases lf) (auto simp: recorded_ok_def)
  with a have ar: "archive (run self h ?st0) = Some [''project.qgz'', ''metadata.json'']" by simp
  from run_signals [OF refl refl refl, where self=self and h=h and fs=fs and ds=ds] r assms
  have "reported (events (run self h ?st0)) =
     [progress_updated 10, progress_updated 100,
      finished_signal True (''Project cloned successfully to: '' @ output_path self)]"
    by auto
  then have "progress_of (reported (events (run self h ?st0))) = [10, 100]"
    by (simp add: progress_of_simps)
  then have ps: "progress_of (events (run self h ?st0)) = [10, 100]"
    by (simp add: progress_of_reported)
  from md assms(1) have "\<exists>md. metadata_json (run self h ?st0) = Some md \<and> layer_count md = 0"
    by (simp add: manifest_of_def)
  with r ok ps ar show ?thesis by blast
qed

theorem no_layers_succeeds_witness:
  "mapLayers empty_host = [] \<and>
   progress_of (events (run demo_thread empty_host demo_state)) = [10, 100] \<and>
   archive (run demo_thread empty_host demo_state) = Some [''project.qgz'', ''metadata.json'']"
proof -
  have h: "mapLayers empty_host = []" "\<not> mkdtemp_raises empty_host" "fileName empty_host \<noteq> []"
    "write_ok empty_host" "\<not> zip_open_raises empty_host"
    by (simp_all add: empty_host_def demo_host_def)
  from no_layers_succeeds [OF h, of demo_thread
      "[''/data/roads.shp'', ''/data/roads.dbf'', ''/data/roads.shx'']" "[''/data'', ''/tmp'']"]
  show ?thesis using h(1) by (simp add: demo_state_def)
qed

end
